theory Spec2Isabelle
  imports Complex_Main "HOL-Library.Multiset"
begin

section \<open>Strings\<close>

text \<open>
  A JavaScript string is modelled as a HOL \<open>string\<close>, one \<open>char\<close> per UTF-16 code unit
  below 256, so that \<open>length\<close> is the source's \<open>.length\<close> on such strings.
\<close>

definition isSpace :: "char \<Rightarrow> bool" where
  \<comment> \<open>the code units below 256 that \<open>\s\<close> and \<open>trim()\<close> treat as white space\<close>
  "isSpace c = (c \<in> set [CHR 0x09, CHR 0x0A, CHR 0x0B, CHR 0x0C, CHR 0x0D, CHR 0x20, CHR 0xA0])"

definition isDigit :: "char \<Rightarrow> bool" where
  \<comment> \<open>\<open>\d\<close>\<close>
  "isDigit c = (c \<in> set ''0123456789'')"

definition isUpper :: "char \<Rightarrow> bool" where
  \<comment> \<open>\<open>[A-Z]\<close>\<close>
  "isUpper c = (c \<in> set ''ABCDEFGHIJKLMNOPQRSTUVWXYZ'')"

definition trim :: "string \<Rightarrow> string" where
  \<comment> \<open>\<open>String.prototype.trim\<close>\<close>
  "trim s = rev (dropWhile isSpace (rev (dropWhile isSpace s)))"

fun join :: "string \<Rightarrow> string list \<Rightarrow> string" where
  \<comment> \<open>\<open>Array.prototype.join\<close>\<close>
  "join sep [] = []"
| "join sep [x] = x"
| "join sep (x # y # ys) = x @ sep @ join sep (y # ys)"

definition truthy :: "string option \<Rightarrow> bool" where
  \<comment> \<open>an optional string used as a condition: \<open>undefined\<close> and the empty string are falsy\<close>
  "truthy v = (case v of None \<Rightarrow> False | Some s \<Rightarrow> s \<noteq> [])"

section \<open>Data model\<close>

subsection \<open>The parsed test model\<close>

datatype Precondition = Single string | Many "string list"

record JSDocTags =
  objective :: "string option"
  precondition :: "Precondition option"
  knownIssue :: "string option"
  playwrightTags :: "string list option"

record TestStep =
  text_s :: string
  lineNumber :: int

datatype TestType = Test | TestSkip | TestFixme

record ParsedTest =
  title :: string
  testCaseId :: "string option"
  testType :: TestType
  jsdocTags :: JSDocTags
  actionSteps :: "TestStep list"
  verificationSteps :: "TestStep list"
  lineNumber_t :: int

subsection \<open>The validation section of the configuration model\<close>

record ValidationConfig =
  requiredTags :: "string list"
  optionalTags :: "string list"
  enforceActionComments :: bool
  enforceVerificationComments :: bool
  projectKey :: "string option"

subsection \<open>The test case mapping model (src/models/test-case-mapping.ts)\<close>

datatype SyncStatus = Synced | Unsynced | NeedsUpdate | Conflict | Orphaned

record TestCaseMapping =
  mappingId :: string
  testFilePath :: string
  testTitle_m :: string
  testCaseId_m :: "string option"
  testCaseKey :: "string option"
  syncStatus_m :: SyncStatus
  lastSyncedHash :: "string option"
  lastSyncedAt :: "string option"

section \<open>Validator (class Validator, in src/core/parser.ts)\<close>

datatype Category = Documentation | ActionSteps | VerificationSteps | TestCaseId | TestTitle | Syntax

datatype Severity = Error | Warning | Info

record ValidationIssue =
  category :: Category
  severity :: Severity
  message :: string
  lineNumber_i :: "int option"
  suggestedFix :: "string option"

record ValidationResult =
  isValid :: bool
  issues :: "ValidationIssue list"

definition regexLiteral :: "string \<Rightarrow> bool" where
  \<comment> \<open>no character of the key is a syntax character of a regular expression, so a pattern
      built by interpolating the key matches the key itself\<close>
  "regexLiteral k = (\<forall>c \<in> set k. c \<notin> set (CHR 0x5C # ''^$.*+?()[]{}|''))"

definition validatorKey :: "ValidationConfig \<Rightarrow> string" where
  \<comment> \<open>\<open>this.config.projectKey || 'MM'\<close>\<close>
  "validatorKey config = (if truthy (projectKey config) then the (projectKey config) else ''MM'')"

definition testCasePattern :: "string \<Rightarrow> string \<Rightarrow> bool" where
  \<comment> \<open>\<open>new RegExp(`^${projectKey}-T\\d+$`).test(s)\<close>, for a literal key\<close>
  "testCasePattern key s =
     (let p = key @ ''-T''; ds = drop (length p) s
      in take (length p) s = p \<and> ds \<noteq> [] \<and> list_all isDigit ds)"

definition titleWithoutId :: "string \<Rightarrow> string" where
  \<comment> \<open>\<open>title.replace(/^[A-Z]+-T\d+:\s*/, '')\<close>: the quantifiers are greedy, and giving
      characters back never helps, as the character after each run is outside its class\<close>
  "titleWithoutId t =
     (let us = takeWhile isUpper t; r1 = dropWhile isUpper t;
          r2 = drop 2 r1; ds = takeWhile isDigit r2; r3 = dropWhile isDigit r2
      in if us \<noteq> [] \<and> take 2 r1 = ''-T'' \<and> ds \<noteq> [] \<and> take 1 r3 = '':''
         then dropWhile isSpace (drop 1 r3) else t)"

definition missingObjective :: "int \<Rightarrow> ValidationIssue" where
  "missingObjective line =
     \<lparr>category = Documentation, severity = Error,
      message = ''Missing required @objective tag'', lineNumber_i = Some line,
      suggestedFix = Some ''Add @objective JSDoc tag describing what this test validates''\<rparr>"

definition missingActionSteps :: "int \<Rightarrow> ValidationIssue" where
  "missingActionSteps line =
     \<lparr>category = ActionSteps, severity = Error,
      message = ''Missing action step comments (// #)'', lineNumber_i = Some line,
      suggestedFix = Some ''Add // # comments before action statements''\<rparr>"

definition missingVerificationSteps :: "int \<Rightarrow> ValidationIssue" where
  "missingVerificationSteps line =
     \<lparr>category = VerificationSteps, severity = Error,
      message = ''Missing verification step comments (// *)'', lineNumber_i = Some line,
      suggestedFix = Some ''Add // * comments before expect/assertion statements''\<rparr>"

definition missingTestCaseId :: "string \<Rightarrow> int \<Rightarrow> ValidationIssue" where
  "missingTestCaseId key line =
     \<lparr>category = TestCaseId, severity = Warning,
      message = ''Missing test case ID in test title (will be assigned automatically)'',
      lineNumber_i = Some line,
      suggestedFix = Some (''Add test case ID in format '' @ key @
        ''-T#### to test title if already synced with TMS'')\<rparr>"

definition invalidTestCaseId :: "string \<Rightarrow> string \<Rightarrow> int \<Rightarrow> ValidationIssue" where
  "invalidTestCaseId key cid line =
     \<lparr>category = TestCaseId, severity = Error,
      message = ''Invalid test case ID format: '' @ cid, lineNumber_i = Some line,
      suggestedFix = Some (''Use format '' @ key @ ''-T#### (e.g., '' @ key @ ''-T12345)'')\<rparr>"

definition titleTooShort :: "int \<Rightarrow> ValidationIssue" where
  "titleTooShort line =
     \<lparr>category = TestTitle, severity = Warning,
      message = ''Test title is too short'', lineNumber_i = Some line,
      suggestedFix = Some ''Use a more descriptive test title (at least 10 characters)''\<rparr>"

definition objectiveIssues :: "ValidationConfig \<Rightarrow> ParsedTest \<Rightarrow> ValidationIssue list" where
  "objectiveIssues config test =
     (if (''objective'' \<in> set (requiredTags config) \<or> ''@objective'' \<in> set (requiredTags config))
         \<and> \<not> truthy (objective (jsdocTags test))
      then [missingObjective (lineNumber_t test)] else [])"

definition actionIssues :: "ValidationConfig \<Rightarrow> ParsedTest \<Rightarrow> ValidationIssue list" where
  "actionIssues config test =
     (if enforceActionComments config \<and> length (actionSteps test) = 0
      then [missingActionSteps (lineNumber_t test)] else [])"

definition verificationIssues :: "ValidationConfig \<Rightarrow> ParsedTest \<Rightarrow> ValidationIssue list" where
  "verificationIssues config test =
     (if enforceVerificationComments config \<and> length (verificationSteps test) = 0
      then [missingVerificationSteps (lineNumber_t test)] else [])"

definition caseIdIssues :: "ValidationConfig \<Rightarrow> ParsedTest \<Rightarrow> ValidationIssue list" where
  "caseIdIssues config test =
     (let key = validatorKey config
      in if \<not> truthy (testCaseId test) then [missingTestCaseId key (lineNumber_t test)]
         else if \<not> testCasePattern key (the (testCaseId test))
         then [invalidTestCaseId key (the (testCaseId test)) (lineNumber_t test)]
         else [])"

definition titleIssues :: "ParsedTest \<Rightarrow> ValidationIssue list" where
  "titleIssues test =
     (if length (titleWithoutId (title test)) < 10 then [titleTooShort (lineNumber_t test)] else [])"

definition validate :: "ValidationConfig \<Rightarrow> ParsedTest \<Rightarrow> ValidationResult" where
  \<comment> \<open>the issues in the order the rules push them\<close>
  "validate config test =
     (let found = objectiveIssues config test @ actionIssues config test @
                  verificationIssues config test @ caseIdIssues config test @ titleIssues test
      in \<lparr>isValid = (length (filter (\<lambda>i. severity i = Error) found) = 0), issues = found\<rparr>)"

section \<open>Scanner: sync status (src/core/scanner.ts)\<close>

definition hasValidationErrors :: "ValidationResult \<Rightarrow> bool" where
  \<comment> \<open>\<open>validationResult.issues.some((issue) => issue.severity === 'error')\<close>\<close>
  "hasValidationErrors r = list_ex (\<lambda>i. severity i = Error) (issues r)"

definition detectSyncStatus ::
  "ValidationConfig \<Rightarrow> ParsedTest \<Rightarrow> TestCaseMapping option \<Rightarrow> string \<Rightarrow> SyncStatus" where
  "detectSyncStatus config parsedTest mapping currentHash =
     (if hasValidationErrors (validate config parsedTest) then Unsynced
      else if \<not> truthy (testCaseId parsedTest) \<or> mapping = None then Unsynced
      else if lastSyncedHash (the mapping) \<noteq> Some currentHash then NeedsUpdate
      else Synced)"

section \<open>Parser: test case IDs (class TestParser, in src/core/parser.ts)\<close>

definition parserKey :: "ValidationConfig \<Rightarrow> string" where
  \<comment> \<open>\<open>new TestParser(config.projectKey)\<close> with the constructor's default
      \<open>projectKey: string = 'MM'\<close>, which replaces \<open>undefined\<close> only\<close>
  "parserKey config = (case projectKey config of None \<Rightarrow> ''MM'' | Some k \<Rightarrow> k)"

definition extractTestCaseId :: "string \<Rightarrow> string \<Rightarrow> string option" where
  \<comment> \<open>\<open>title.match(new RegExp(`^(${this.projectKey}-T\\d+):`))\<close>, for a literal key: the
      digits are matched greedily and the next character must be the colon\<close>
  "extractTestCaseId key t =
     (let p = key @ ''-T''; r = drop (length p) t; ds = takeWhile isDigit r
      in if take (length p) t = p \<and> ds \<noteq> [] \<and> take 1 (dropWhile isDigit r) = '':''
         then Some (p @ ds) else None)"

definition parseTestCallExpression ::
  "string \<Rightarrow> string \<Rightarrow> TestType \<Rightarrow> JSDocTags \<Rightarrow> TestStep list \<Rightarrow> TestStep list \<Rightarrow> int
   \<Rightarrow> ParsedTest" where
  \<comment> \<open>the record returned for a recognised test call; what is read off the syntax tree
      (title literal, call shape, tags, steps, line) is given\<close>
  "parseTestCallExpression key ttl ty tags acts vers line =
     \<lparr>title = ttl, testCaseId = extractTestCaseId key ttl, testType = ty, jsdocTags = tags,
      actionSteps = acts, verificationSteps = vers, lineNumber_t = line\<rparr>"

definition titleWithoutProjectPrefix_spec :: "string \<Rightarrow> string \<Rightarrow> string" where
  \<comment> \<open>the title rule as the specification words it: a leading case ID of the configured
      project key and its colon are stripped\<close>
  "titleWithoutProjectPrefix_spec key t =
     (case extractTestCaseId key t of None \<Rightarrow> t | Some cid \<Rightarrow> drop (length cid + 1) t)"

section \<open>Change detector (class ChangeDetector, in src/core/parser.ts)\<close>

definition sortSteps :: "TestStep list \<Rightarrow> TestStep list" where
  \<comment> \<open>\<open>[...steps].sort((a, b) => a.lineNumber - b.lineNumber)\<close>; the sort is stable\<close>
  "sortSteps steps = sort_key lineNumber steps"

definition preconditions :: "Precondition \<Rightarrow> string list" where
  \<comment> \<open>\<open>Array.isArray(p) ? p : [p]\<close>\<close>
  "preconditions p = (case p of Single s \<Rightarrow> [s] | Many ps \<Rightarrow> ps)"

definition hasPrecondition :: "Precondition option \<Rightarrow> bool" where
  \<comment> \<open>\<open>if (test.jsdocTags.precondition)\<close>: an array is truthy, also when empty\<close>
  "hasPrecondition v =
     (case v of None \<Rightarrow> False | Some (Single s) \<Rightarrow> s \<noteq> [] | Some (Many ps) \<Rightarrow> True)"

definition stepTexts :: "TestStep list \<Rightarrow> string list" where
  \<comment> \<open>\<open>this.sortSteps(steps).map((s) => s.text.trim())\<close>\<close>
  "stepTexts steps = map (\<lambda>s. trim (text_s s)) (sortSteps steps)"

definition objectivePart :: "ParsedTest \<Rightarrow> string list" where
  "objectivePart test =
     (if truthy (objective (jsdocTags test))
      then [''objective:'' @ trim (the (objective (jsdocTags test)))] else [])"

definition preconditionPart :: "ParsedTest \<Rightarrow> string list" where
  "preconditionPart test =
     (if hasPrecondition (precondition (jsdocTags test))
      then [''precondition:'' @
            join ''|'' (map trim (preconditions (the (precondition (jsdocTags test)))))]
      else [])"

definition actionsPart :: "ParsedTest \<Rightarrow> string list" where
  "actionsPart test =
     (if length (actionSteps test) > 0
      then [''actions:'' @ join ''|'' (stepTexts (actionSteps test))] else [])"

definition verificationsPart :: "ParsedTest \<Rightarrow> string list" where
  "verificationsPart test =
     (if length (verificationSteps test) > 0
      then [''verifications:'' @ join ''|'' (stepTexts (verificationSteps test))] else [])"

definition knownIssuePart :: "ParsedTest \<Rightarrow> string list" where
  "knownIssuePart test =
     (if truthy (knownIssue (jsdocTags test))
      then [''knownIssue:'' @ trim (the (knownIssue (jsdocTags test)))] else [])"

definition parts :: "ParsedTest \<Rightarrow> string list" where
  "parts test = objectivePart test @ preconditionPart test @ actionsPart test @
                verificationsPart test @ knownIssuePart test"

definition normalizedContent :: "ParsedTest \<Rightarrow> string" where
  \<comment> \<open>\<open>parts.join('\n')\<close>, the string that is hashed\<close>
  "normalizedContent test = join [CHR 0x0A] (parts test)"

definition calculateHash :: "(string \<Rightarrow> string) \<Rightarrow> ParsedTest \<Rightarrow> string" where
  \<comment> \<open>\<open>createHash('sha256').update(normalizedContent, 'utf-8').digest('hex')\<close>; the digest
      function of the crypto library is the parameter \<open>sha256\<close>\<close>
  "calculateHash sha256 test = sha256 (normalizedContent test)"

subsection \<open>The canonical structure of a test\<close>

text \<open>
  What canonicalization keeps of a test: the trimmed objective and known issue when the
  section is present, the trimmed preconditions in their order, and the trimmed step texts
  in line order.
\<close>

record Canonical =
  c_objective :: "string option"
  c_preconditions :: "string list option"
  c_actions :: "string list"
  c_verifications :: "string list"
  c_knownIssue :: "string option"

definition canonical :: "ParsedTest \<Rightarrow> Canonical" where
  "canonical test =
     \<lparr>c_objective = (if truthy (objective (jsdocTags test))
                     then Some (trim (the (objective (jsdocTags test)))) else None),
      c_preconditions = (if hasPrecondition (precondition (jsdocTags test))
                         then Some (map trim (preconditions (the (precondition (jsdocTags test)))))
                         else None),
      c_actions = stepTexts (actionSteps test),
      c_verifications = stepTexts (verificationSteps test),
      c_knownIssue = (if truthy (knownIssue (jsdocTags test))
                      then Some (trim (the (knownIssue (jsdocTags test)))) else None)\<rparr>"

definition lineFree :: "string \<Rightarrow> bool" where
  "lineFree s = (CHR 0x0A \<notin> set s)"

definition barFree :: "string \<Rightarrow> bool" where
  "barFree s = (CHR ''|'' \<notin> set s)"

definition separable :: "Canonical \<Rightarrow> bool" where
  \<comment> \<open>no text holds a line feed, no member of a list section holds a bar, and a
      precondition list that is present is not empty\<close>
  "separable c =
     (list_all lineFree (case c_objective c of None \<Rightarrow> [] | Some s \<Rightarrow> [s]) \<and>
      list_all lineFree (case c_knownIssue c of None \<Rightarrow> [] | Some s \<Rightarrow> [s]) \<and>
      list_all (\<lambda>s. lineFree s \<and> barFree s)
        ((case c_preconditions c of None \<Rightarrow> [] | Some ps \<Rightarrow> ps) @ c_actions c @ c_verifications c) \<and>
      c_preconditions c \<noteq> Some [])"

section \<open>Scanner: files and metrics (src/core/scanner.ts)\<close>

record ScanIssue =
  testTitle :: string
  syncStatus :: SyncStatus
  message_s :: string

record FileResult =
  filePath :: string
  testCount :: int
  syncedCount :: int
  unmappedCount :: int
  outOfSyncCount :: int
  validationErrorCount :: int
  issues_f :: "ScanIssue list"

text \<open>
  The scanner's collaborators that reach outside the program: the digest function, reading
  and parsing a test file, and loading a mapping file. The last two either throw, with a
  message, or return.
\<close>

record Scanner =
  config :: ValidationConfig
  sha256 :: "string \<Rightarrow> string"
  parseTestFile :: "string \<Rightarrow> string + ParsedTest list"
  loadMappingFile :: "string \<Rightarrow> string + TestCaseMapping list"

definition createErrorFileResult :: "string \<Rightarrow> string \<Rightarrow> FileResult" where
  \<comment> \<open>the second argument is the message of what was thrown\<close>
  "createErrorFileResult path err =
     \<lparr>filePath = path, testCount = 0, syncedCount = 0, unmappedCount = 0, outOfSyncCount = 0,
      validationErrorCount = 1,
      issues_f = [\<lparr>testTitle = ''File Scan Error'', syncStatus = Unsynced, message_s = err\<rparr>]\<rparr>"

definition createMappingMap :: "TestCaseMapping list \<Rightarrow> (string \<rightharpoonup> TestCaseMapping)" where
  "createMappingMap mappings =
     fold (\<lambda>m acc. if truthy (testCaseId_m m) then acc(the (testCaseId_m m) \<mapsto> m) else acc)
          mappings Map.empty"

definition handleUnsyncedStatus ::
  "ParsedTest \<Rightarrow> bool \<Rightarrow> ValidationResult \<Rightarrow> FileResult \<Rightarrow> FileResult" where
  "handleUnsyncedStatus test hasErrors validationResult acc =
     (if hasErrors
      then acc\<lparr>validationErrorCount := validationErrorCount acc + 1,
               issues_f := issues_f acc @
                 [\<lparr>testTitle = title test, syncStatus = Unsynced,
                   message_s = ''Validation failed: '' @
                     join '', '' (map message (filter (\<lambda>i. severity i = Error)
                                                      (issues validationResult)))\<rparr>]\<rparr>
      else acc\<lparr>unmappedCount := unmappedCount acc + 1,
               issues_f := issues_f acc @
                 [\<lparr>testTitle = title test, syncStatus = Unsynced,
                   message_s = ''Test is not mapped to a TMS test case''\<rparr>]\<rparr>)"

definition categorizeTestResult ::
  "ParsedTest \<Rightarrow> SyncStatus \<Rightarrow> bool \<Rightarrow> ValidationResult \<Rightarrow> FileResult \<Rightarrow> FileResult" where
  "categorizeTestResult test status hasErrors validationResult acc =
     (case status of
        Synced \<Rightarrow> acc\<lparr>syncedCount := syncedCount acc + 1\<rparr>
      | Unsynced \<Rightarrow> handleUnsyncedStatus test hasErrors validationResult acc
      | NeedsUpdate \<Rightarrow>
          acc\<lparr>outOfSyncCount := outOfSyncCount acc + 1,
              issues_f := issues_f acc @
                [\<lparr>testTitle = title test, syncStatus = NeedsUpdate,
                  message_s = ''Test content has changed since last sync''\<rparr>]\<rparr>
      | _ \<Rightarrow> acc)"

definition scanTest ::
  "Scanner \<Rightarrow> (string \<rightharpoonup> TestCaseMapping) \<Rightarrow> ParsedTest \<Rightarrow> FileResult \<Rightarrow> FileResult" where
  \<comment> \<open>the body of the loop over the tests of a file\<close>
  "scanTest sc mappingMap test acc =
     (let currentHash = calculateHash (sha256 sc) test;
          mapping = (if truthy (testCaseId test) then mappingMap (the (testCaseId test)) else None);
          validationResult = validate (config sc) test;
          hasErrors = hasValidationErrors validationResult;
          status = detectSyncStatus (config sc) test mapping currentHash
      in categorizeTestResult test status hasErrors validationResult acc)"

definition scanFile :: "Scanner \<Rightarrow> string \<Rightarrow> string + FileResult" where
  "scanFile sc path =
     (case parseTestFile sc path of
        Inl err \<Rightarrow> Inl err
      | Inr tests \<Rightarrow>
          (case loadMappingFile sc (path @ ''.mapping.json'') of
             Inl err \<Rightarrow> Inl err
           | Inr mappings \<Rightarrow>
               Inr (fold (scanTest sc (createMappingMap mappings)) tests
                      \<lparr>filePath = path, testCount = int (length tests), syncedCount = 0,
                       unmappedCount = 0, outOfSyncCount = 0, validationErrorCount = 0,
                       issues_f = []\<rparr>)))"

fun scanAllFiles :: "Scanner \<Rightarrow> string list \<Rightarrow> FileResult list" where
  \<comment> \<open>the loop with its try and catch around each file\<close>
  "scanAllFiles sc [] = []"
| "scanAllFiles sc (path # files) =
     (case scanFile sc path of
        Inr fileResult \<Rightarrow> fileResult
      | Inl err \<Rightarrow> createErrorFileResult path err) # scanAllFiles sc files"

record Metrics =
  totalTests :: int
  syncedTests :: int
  unmappedTests :: int
  outOfSyncTests :: int
  validationErrors :: int
  syncCoverage :: int
  documentationCompliance :: int

definition percentage :: "int \<Rightarrow> int \<Rightarrow> int" where
  \<comment> \<open>\<open>Math.round((n / allTests) * 100)\<close>, in exact arithmetic; \<open>Math.round\<close> rounds a half up\<close>
  "percentage n allTests = round ((of_int n / of_int allTests :: rat) * 100)"

definition calculateMetrics :: "FileResult list \<Rightarrow> Metrics" where
  "calculateMetrics fileResults =
     (let allTests = sum_list (map testCount fileResults);
          synced = sum_list (map syncedCount fileResults);
          unmapped = sum_list (map unmappedCount fileResults);
          outOfSync = sum_list (map outOfSyncCount fileResults);
          errors = sum_list (map validationErrorCount fileResults);
          mappedTests = synced + outOfSync;
          validTests = allTests - errors
      in \<lparr>totalTests = allTests, syncedTests = synced, unmappedTests = unmapped,
          outOfSyncTests = outOfSync, validationErrors = errors,
          syncCoverage = (if allTests > 0 then percentage mappedTests allTests else 0),
          documentationCompliance = (if allTests > 0 then percentage validTests allTests else 0)\<rparr>)"

definition mappedCount :: "FileResult \<Rightarrow> int" where
  \<comment> \<open>the tests of a file that count as mapped: synced or out of sync\<close>
  "mappedCount r = syncedCount r + outOfSyncCount r"

section \<open>Mapping manager (class MappingManager, in src/utils/logger.ts)\<close>

datatype json = JNull | JBool bool | JNumber rat | JString string
  | JArray "json list" | JObject "(string \<times> json) list"

definition isObject :: "json option \<Rightarrow> bool" where
  \<comment> \<open>\<open>typeof v === 'object' && v !== null\<close>; an absent property reads as \<open>undefined\<close>\<close>
  "isObject v = (case v of Some (JObject kvs) \<Rightarrow> True | Some (JArray xs) \<Rightarrow> True | _ \<Rightarrow> False)"

definition hasProperty :: "string \<Rightarrow> json \<Rightarrow> bool" where
  \<comment> \<open>\<open>field in obj\<close>, for the field names asked for here: an array has none of them\<close>
  "hasProperty f v = (case v of JObject kvs \<Rightarrow> f \<in> set (map fst kvs) | _ \<Rightarrow> False)"

definition getProperty :: "string \<Rightarrow> json \<Rightarrow> json option" where
  \<comment> \<open>\<open>obj[field]\<close>\<close>
  "getProperty f v = (case v of JObject kvs \<Rightarrow> map_of kvs f | _ \<Rightarrow> None)"

definition requiredFields :: "string list" where
  "requiredFields = [''id'', ''testFilePath'', ''testTitle'', ''syncStatus'', ''metadata'']"

definition requiredMetadataFields :: "string list" where
  "requiredMetadataFields = [''createdAt'', ''updatedAt'', ''createdBy'', ''syncCount'']"

definition validateMapping :: "json \<Rightarrow> string + unit" where
  "validateMapping mapping =
     (if \<not> isObject (Some mapping) then Inl ''Mapping must be an object''
      else case find (\<lambda>f. \<not> hasProperty f mapping) requiredFields of
        Some f \<Rightarrow> Inl (''Missing required field: '' @ f)
      | None \<Rightarrow>
          (let metadata = getProperty ''metadata'' mapping
           in if isObject metadata
              then (case find (\<lambda>f. \<not> hasProperty f (the metadata)) requiredMetadataFields of
                      Some f \<Rightarrow> Inl (''Missing required metadata field: '' @ f)
                    | None \<Rightarrow> Inr ())
              else Inl ''Missing required field: metadata''))"

fun validateAll :: "json list \<Rightarrow> string + unit" where
  \<comment> \<open>\<open>for (const mapping of data) this.validateMapping(mapping)\<close>: the first throw ends it\<close>
  "validateAll [] = Inr ()"
| "validateAll (m # ms) = (case validateMapping m of Inl err \<Rightarrow> Inl err | Inr _ \<Rightarrow> validateAll ms)"

definition loadMapping ::
  "(string \<rightharpoonup> string) \<Rightarrow> (string \<Rightarrow> json option) \<Rightarrow> string \<Rightarrow> string + json list" where
  \<comment> \<open>\<open>files\<close> is the file system (a path with no file reads \<open>None\<close>), \<open>jsonParse\<close> is
      \<open>JSON.parse\<close> (\<open>None\<close> when it throws a SyntaxError); \<open>Inl\<close> is the message thrown\<close>
  "loadMapping files jsonParse path =
     (case files path of
        None \<Rightarrow> Inr []
      | Some content \<Rightarrow>
          (case jsonParse content of
             None \<Rightarrow> Inl (''Invalid JSON in mapping file: '' @ path)
           | Some (JArray entries) \<Rightarrow>
               (case validateAll entries of Inl err \<Rightarrow> Inl err | Inr _ \<Rightarrow> Inr entries)
           | Some _ \<Rightarrow> Inl ''Mapping file must contain an array''))"

definition completeEntry :: "json \<Rightarrow> bool" where
  \<comment> \<open>the mapping store's contract: every required field is there, and the metadata has
      every field required of it\<close>
  "completeEntry entry =
     (list_all (\<lambda>f. hasProperty f entry) requiredFields \<and>
      (case getProperty ''metadata'' entry of
         None \<Rightarrow> False
       | Some md \<Rightarrow> list_all (\<lambda>f. hasProperty f md) requiredMetadataFields))"

section \<open>Edits of a test\<close>

text \<open>
  Not functions of the program: the changes to a test that the properties of the
  fingerprint are stated with.
\<close>

definition lineAndText :: "TestStep \<Rightarrow> int \<times> string" where
  \<comment> \<open>what the hashed string keeps of a step: the sort key and the trimmed text\<close>
  "lineAndText s = (lineNumber s, trim (text_s s))"

definition withObjective :: "string \<Rightarrow> ParsedTest \<Rightarrow> ParsedTest" where
  "withObjective s t = t\<lparr>jsdocTags := (jsdocTags t)\<lparr>objective := Some s\<rparr>\<rparr>"

definition withKnownIssue :: "string \<Rightarrow> ParsedTest \<Rightarrow> ParsedTest" where
  "withKnownIssue s t = t\<lparr>jsdocTags := (jsdocTags t)\<lparr>knownIssue := Some s\<rparr>\<rparr>"

definition withPrecondition :: "Precondition \<Rightarrow> ParsedTest \<Rightarrow> ParsedTest" where
  "withPrecondition p t = t\<lparr>jsdocTags := (jsdocTags t)\<lparr>precondition := Some p\<rparr>\<rparr>"

definition withStepText :: "nat \<Rightarrow> string \<Rightarrow> TestStep list \<Rightarrow> TestStep list" where
  \<comment> \<open>the steps with the text of step \<open>i\<close> replaced; its line stays\<close>
  "withStepText i s steps = steps[i := (steps ! i)\<lparr>text_s := s\<rparr>]"

section \<open>Example values\<close>

definition defaultValidation :: ValidationConfig where
  \<comment> \<open>\<open>DEFAULT_CONFIG.validation\<close>\<close>
  "defaultValidation =
     \<lparr>requiredTags = [''@objective''], optionalTags = [''@precondition'', ''@known_issue''],
      enforceActionComments = True, enforceVerificationComments = True,
      projectKey = Some ''MM''\<rparr>"

definition loginTest :: ParsedTest where
  "loginTest =
     \<lparr>title = ''MM-T12345: User can log in'', testCaseId = Some ''MM-T12345'', testType = Test,
      jsdocTags = \<lparr>objective = Some ''Verify that user can log in'', precondition = None,
                   knownIssue = None, playwrightTags = None\<rparr>,
      actionSteps = [\<lparr>text_s = ''Navigate to login page'', lineNumber = 5\<rparr>],
      verificationSteps = [\<lparr>text_s = ''User is logged in'', lineNumber = 7\<rparr>],
      lineNumber_t = 3\<rparr>"

definition loginMapping :: TestCaseMapping where
  "loginMapping =
     \<lparr>mappingId = ''m1'', testFilePath = ''/t/login.spec.ts'',
      testTitle_m = ''MM-T12345: User can log in'', testCaseId_m = Some ''MM-T12345'',
      testCaseKey = None, syncStatus_m = Synced, lastSyncedHash = Some ''abc'',
      lastSyncedAt = None\<rparr>"

definition exampleScanner :: Scanner where
  \<comment> \<open>two files cannot be read; every other file holds the login test\<close>
  "exampleScanner =
     \<lparr>config = defaultValidation, sha256 = (\<lambda>s. s),
      parseTestFile = (\<lambda>p. if p = ''f5.spec.ts'' \<or> p = ''f7.spec.ts''
                            then Inl (''Failed to read file '' @ p) else Inr [loginTest]),
      loadMappingFile = (\<lambda>p. Inr [loginMapping])\<rparr>"

definition goodEntry :: json where
  "goodEntry =
     JObject [(''id'', JString ''m1''), (''testFilePath'', JString ''/t/login.spec.ts''),
              (''testTitle'', JString ''MM-T12345: User can log in''),
              (''syncStatus'', JString ''synced''),
              (''metadata'', JObject [(''createdAt'', JString ''2025-11-02T12:00:00Z''),
                                      (''updatedAt'', JString ''2025-11-02T12:00:00Z''),
                                      (''createdBy'', JString ''tm-sync''),
                                      (''syncCount'', JNumber 1)])]"

definition goodText :: string where
  \<open>goodText = ''[{"id":"m1","testFilePath":"/t/login.spec.ts","testTitle":"MM-T12345: User can log in","syncStatus":"synced","metadata":{"createdAt":"2025-11-02T12:00:00Z","updatedAt":"2025-11-02T12:00:00Z","createdBy":"tm-sync","syncCount":1}}]''\<close>

definition exampleParse :: "string \<Rightarrow> json option" where
  \<comment> \<open>\<open>JSON.parse\<close> on the texts of the example files\<close>
  \<open>exampleParse = map_of [(goodText, JArray [goodEntry]), (''{}'', JObject []),
     (''[{"id":"m1"}]'', JArray [JObject [(''id'', JString ''m1'')]])]\<close>

definition exampleFiles :: "string \<rightharpoonup> string" where
  \<open>exampleFiles = map_of [(''good.mapping.json'', goodText), (''object.mapping.json'', ''{}''),
     (''partial.mapping.json'', ''[{"id":"m1"}]''), (''broken.mapping.json'', ''[{'')]\<close>

definition emptyKeyValidation :: ValidationConfig where
  \<comment> \<open>a validation section that sets \<open>projectKey\<close> to the empty string\<close>
  "emptyKeyValidation = defaultValidation\<lparr>projectKey := Some []\<rparr>"

definition exampleTest :: "string \<Rightarrow> string \<Rightarrow> ParsedTest" where
  \<comment> \<open>what the parser returns for a documented test with the given title\<close>
  "exampleTest key ttl =
     parseTestCallExpression key ttl Test (jsdocTags loginTest) (actionSteps loginTest)
       (verificationSteps loginTest) 3"

definition tiedTest :: ParsedTest where
  \<comment> \<open>two action steps recorded on the same line\<close>
  "tiedTest = loginTest\<lparr>actionSteps := [\<lparr>text_s = ''Open menu'', lineNumber = 5\<rparr>,
                                        \<lparr>text_s = ''Click save'', lineNumber = 5\<rparr>]\<rparr>"

definition swappedTest :: ParsedTest where
  \<comment> \<open>the same two steps, in the other order\<close>
  "swappedTest = loginTest\<lparr>actionSteps := [\<lparr>text_s = ''Click save'', lineNumber = 5\<rparr>,
                                           \<lparr>text_s = ''Open menu'', lineNumber = 5\<rparr>]\<rparr>"

definition barTest :: ParsedTest where
  \<comment> \<open>one action step whose text holds a bar\<close>
  "barTest = loginTest\<lparr>actionSteps := [\<lparr>text_s = ''Open menu|Click save'', lineNumber = 5\<rparr>]\<rparr>"

definition splitTest :: ParsedTest where
  \<comment> \<open>two action steps\<close>
  "splitTest = loginTest\<lparr>actionSteps := [\<lparr>text_s = ''Open menu'', lineNumber = 5\<rparr>,
                                         \<lparr>text_s = ''Click save'', lineNumber = 6\<rparr>]\<rparr>"

definition migratedTest :: ParsedTest where
  \<comment> \<open>no action steps; the objective holds a line feed and what reads as an actions section\<close>
  "migratedTest =
     (withObjective (''Verify login'' @ [CHR 0x0A] @ ''actions:Open menu'') loginTest)
       \<lparr>actionSteps := []\<rparr>"

definition plainTest :: ParsedTest where
  \<comment> \<open>the objective and one action step\<close>
  "plainTest =
     (withObjective ''Verify login'' loginTest)
       \<lparr>actionSteps := [\<lparr>text_s = ''Open menu'', lineNumber = 5\<rparr>]\<rparr>"

section \<open>Evaluation rules\<close>

lemmas validate_eval = validate_def objectiveIssues_def actionIssues_def verificationIssues_def
  caseIdIssues_def titleIssues_def truthy_def validatorKey_def testCasePattern_def
  titleWithoutId_def isUpper_def isDigit_def isSpace_def missingObjective_def
  missingActionSteps_def missingVerificationSteps_def missingTestCaseId_def
  invalidTestCaseId_def titleTooShort_def Let_def

lemma validate_loginTest:
  "validate defaultValidation loginTest = \<lparr>isValid = True, issues = []\<rparr>"
  by (simp add: validate_eval defaultValidation_def loginTest_def)

section \<open>The sync-status classifier\<close>

lemma hasValidationErrors_iff:
  "hasValidationErrors r \<longleftrightarrow> (\<exists>i \<in> set (issues r). severity i = Error)"
  by (simp add: hasValidationErrors_def list_ex_iff)

lemma isValid_validate:
  "isValid (validate cfg t) \<longleftrightarrow> \<not> (\<exists>i \<in> set (issues (validate cfg t)). severity i = Error)"
  by (auto simp: validate_def Let_def filter_empty_conv)

text \<open>
  Claim C1. \<open>detectSyncStatus\<close> returns one of Synced, Unsynced and NeedsUpdate for every
  test, mapping (or none) and current digest, by priority: Unsynced whenever validation
  finds an issue of severity error, whatever the mapping and the digests; Unsynced when the
  test has no case ID (absent or empty) or there is no mapping; NeedsUpdate exactly when
  validation passes, the test has a case ID, a mapping is there and its stored digest
  differs from the current one; Synced exactly when validation passes, the test has a case
  ID, a mapping is there and its stored digest is the current one.
\<close>

theorem detectSyncStatus_classification:
  "detectSyncStatus cfg t m h \<in> {Synced, Unsynced, NeedsUpdate}
   \<and> ((\<exists>i \<in> set (issues (validate cfg t)). severity i = Error)
        \<longrightarrow> detectSyncStatus cfg t m h = Unsynced)
   \<and> (\<not> truthy (testCaseId t) \<or> m = None \<longrightarrow> detectSyncStatus cfg t m h = Unsynced)
   \<and> (detectSyncStatus cfg t m h = NeedsUpdate \<longleftrightarrow>
        isValid (validate cfg t) \<and> truthy (testCaseId t) \<and>
        (\<exists>mp. m = Some mp \<and> lastSyncedHash mp \<noteq> Some h))
   \<and> (detectSyncStatus cfg t m h = Synced \<longleftrightarrow>
        isValid (validate cfg t) \<and> truthy (testCaseId t) \<and>
        (\<exists>mp. m = Some mp \<and> lastSyncedHash mp = Some h))"
  unfolding isValid_validate
  by (auto simp: detectSyncStatus_def hasValidationErrors_iff)

theorem detectSyncStatus_classification_witness:
  "isValid (validate defaultValidation loginTest) \<and> truthy (testCaseId loginTest)
   \<and> lastSyncedHash loginMapping = Some ''abc''
   \<and> detectSyncStatus defaultValidation loginTest (Some loginMapping) ''abc'' = Synced
   \<and> detectSyncStatus defaultValidation loginTest (Some loginMapping) ''abd'' = NeedsUpdate
   \<and> detectSyncStatus defaultValidation loginTest None ''abc'' = Unsynced
   \<and> (\<exists>i \<in> set (issues (validate defaultValidation (loginTest\<lparr>actionSteps := []\<rparr>))).
         severity i = Error)
   \<and> detectSyncStatus defaultValidation (loginTest\<lparr>actionSteps := []\<rparr>) (Some loginMapping) ''abc''
       = Unsynced"
proof -
  have v: "isValid (validate defaultValidation loginTest)"
    by (simp add: validate_loginTest)
  have c: "truthy (testCaseId loginTest)"
    by (simp add: loginTest_def truthy_def)
  have h: "lastSyncedHash loginMapping = Some ''abc''" "lastSyncedHash loginMapping \<noteq> Some ''abd''"
    by (simp_all add: loginMapping_def)
  have e: "\<exists>i \<in> set (issues (validate defaultValidation (loginTest\<lparr>actionSteps := []\<rparr>))).
         severity i = Error"
    by (simp add: validate_eval defaultValidation_def loginTest_def)
  show ?thesis
    using v c h e
      detectSyncStatus_classification [of defaultValidation loginTest "Some loginMapping" "''abc''"]
      detectSyncStatus_classification [of defaultValidation loginTest "Some loginMapping" "''abd''"]
      detectSyncStatus_classification [of defaultValidation loginTest None "''abc''"]
      detectSyncStatus_classification [of defaultValidation "loginTest\<lparr>actionSteps := []\<rparr>"
        "Some loginMapping" "''abc''"]
    by simp
qed

section \<open>Scanning files\<close>

lemmas hash_eval = calculateHash_def normalizedContent_def parts_def objectivePart_def
  preconditionPart_def actionsPart_def verificationsPart_def knownIssuePart_def stepTexts_def
  sortSteps_def trim_def hasPrecondition_def preconditions_def

lemmas scan_eval = scanFile_def scanTest_def createMappingMap_def categorizeTestResult_def
  handleUnsyncedStatus_def detectSyncStatus_def hasValidationErrors_def createErrorFileResult_def

lemma scanFile_login:
  "p \<noteq> ''f5.spec.ts'' \<Longrightarrow> p \<noteq> ''f7.spec.ts'' \<Longrightarrow>
   scanFile exampleScanner p = Inr
     \<lparr>filePath = p, testCount = 1, syncedCount = 0, unmappedCount = 0, outOfSyncCount = 1,
      validationErrorCount = 0,
      issues_f = [\<lparr>testTitle = ''MM-T12345: User can log in'', syncStatus = NeedsUpdate,
                   message_s = ''Test content has changed since last sync''\<rparr>]\<rparr>"
  by (simp add: scan_eval exampleScanner_def validate_loginTest)
     (simp add: loginTest_def loginMapping_def truthy_def hash_eval isSpace_def)

lemma scanFile_unreadable:
  "p = ''f5.spec.ts'' \<or> p = ''f7.spec.ts'' \<Longrightarrow>
   scanFile exampleScanner p = Inl (''Failed to read file '' @ p)"
  by (auto simp: scanFile_def exampleScanner_def)

lemma scanAllFiles_length: "length (scanAllFiles sc files) = length files"
  by (induction files) simp_all

lemma scanAllFiles_nth:
  "i < length files \<Longrightarrow>
   scanAllFiles sc files ! i =
     (case scanFile sc (files ! i) of Inr r \<Rightarrow> r
      | Inl err \<Rightarrow> createErrorFileResult (files ! i) err)"
proof (induction files arbitrary: i)
  case Nil
  then show ?case by simp
next
  case (Cons p ps)
  then show ?case by (cases i) (auto split: sum.splits)
qed

lemma scanFile_throws:
  "(\<exists>err. scanFile sc p = Inl err) \<longleftrightarrow>
     isl (parseTestFile sc p) \<or> isl (loadMappingFile sc (p @ ''.mapping.json''))"
  by (auto simp: scanFile_def split: sum.splits)

text \<open>
  Claim C4. \<open>scanAllFiles\<close> returns one result for each file it is given, in order. A file
  whose scan throws, which happens exactly when parsing it or loading its mapping file
  throws, gets the synthetic result: test count 0, validation error count 1 and the single
  issue that carries the message thrown. Every other file gets the result of its own scan,
  whatever happened to the files before it.
\<close>

theorem scanAllFiles_isolation:
  "length (scanAllFiles sc files) = length files
   \<and> (\<forall>i < length files.
        (\<forall>err. scanFile sc (files ! i) = Inl err \<longrightarrow>
           scanAllFiles sc files ! i = createErrorFileResult (files ! i) err
           \<and> filePath (scanAllFiles sc files ! i) = files ! i
           \<and> testCount (scanAllFiles sc files ! i) = 0
           \<and> validationErrorCount (scanAllFiles sc files ! i) = 1
           \<and> issues_f (scanAllFiles sc files ! i) =
               [\<lparr>testTitle = ''File Scan Error'', syncStatus = Unsynced, message_s = err\<rparr>])
        \<and> (\<forall>r. scanFile sc (files ! i) = Inr r \<longrightarrow> scanAllFiles sc files ! i = r))
   \<and> (\<forall>p. (\<exists>err. scanFile sc p = Inl err) \<longleftrightarrow>
          isl (parseTestFile sc p) \<or> isl (loadMappingFile sc (p @ ''.mapping.json'')))"
  by (simp add: scanAllFiles_length scanAllFiles_nth scanFile_throws createErrorFileResult_def)

theorem scanAllFiles_isolation_witness:
  "(1::nat) < length [''f4.spec.ts'', ''f5.spec.ts'', ''f6.spec.ts'']
   \<and> scanFile exampleScanner ([''f4.spec.ts'', ''f5.spec.ts'', ''f6.spec.ts''] ! 1)
       = Inl ''Failed to read file f5.spec.ts''
   \<and> length (scanAllFiles exampleScanner [''f4.spec.ts'', ''f5.spec.ts'', ''f6.spec.ts'']) = 3
   \<and> testCount (scanAllFiles exampleScanner [''f4.spec.ts'', ''f5.spec.ts'', ''f6.spec.ts''] ! 1) = 0
   \<and> validationErrorCount
        (scanAllFiles exampleScanner [''f4.spec.ts'', ''f5.spec.ts'', ''f6.spec.ts''] ! 1) = 1
   \<and> Inr (scanAllFiles exampleScanner [''f4.spec.ts'', ''f5.spec.ts'', ''f6.spec.ts''] ! 2)
       = scanFile exampleScanner ''f6.spec.ts''"
proof -
  let ?fs = "[''f4.spec.ts'', ''f5.spec.ts'', ''f6.spec.ts'']"
  have t: "scanFile exampleScanner (?fs ! 1) = Inl ''Failed to read file f5.spec.ts''"
    by (simp add: scanFile_unreadable)
  have r: "scanFile exampleScanner (?fs ! 2) = scanFile exampleScanner ''f6.spec.ts''"
    by simp
  obtain res where res: "scanFile exampleScanner ''f6.spec.ts'' = Inr res"
    by (simp add: scanFile_login)
  note iso = scanAllFiles_isolation [of exampleScanner ?fs]
  from iso have len: "length (scanAllFiles exampleScanner ?fs) = 3"
    by simp
  from iso have at: "\<forall>i < length ?fs.
        (\<forall>err. scanFile exampleScanner (?fs ! i) = Inl err \<longrightarrow>
           testCount (scanAllFiles exampleScanner ?fs ! i) = 0
           \<and> validationErrorCount (scanAllFiles exampleScanner ?fs ! i) = 1)
        \<and> (\<forall>r. scanFile exampleScanner (?fs ! i) = Inr r \<longrightarrow>
              scanAllFiles exampleScanner ?fs ! i = r)"
    by blast
  from at t have one: "testCount (scanAllFiles exampleScanner ?fs ! 1) = 0
      \<and> validationErrorCount (scanAllFiles exampleScanner ?fs ! 1) = 1"
    by (metis One_nat_def length_Cons lessI less_Suc_eq list.size(3))
  from at r res have two: "scanAllFiles exampleScanner ?fs ! 2 = res"
    by (metis One_nat_def Suc_1 length_Cons lessI list.size(3))
  from t len one two res show ?thesis
    by simp
qed

section \<open>Aggregate metrics\<close>

lemma percentage_bounds:
  assumes "0 \<le> n" "n \<le> d" "0 < d"
  shows "0 \<le> percentage n d \<and> percentage n d \<le> 100"
proof -
  let ?q = "(of_int n / of_int d :: rat) * 100"
  have "0 \<le> ?q" using assms by simp
  moreover have "?q \<le> 100" using assms by (simp add: divide_le_eq)
  ultimately show ?thesis
    unfolding percentage_def
    by (metis round_mono round_0 round_numeral)
qed

lemma calculateMetrics_no_tests:
  "totalTests (calculateMetrics rs) = 0 \<Longrightarrow>
   syncCoverage (calculateMetrics rs) = 0 \<and> documentationCompliance (calculateMetrics rs) = 0"
  by (simp add: calculateMetrics_def Let_def)

lemma scanTest_counts:
  "testCount (scanTest sc mm test acc) = testCount acc
   \<and> mappedCount acc \<le> mappedCount (scanTest sc mm test acc)
   \<and> mappedCount (scanTest sc mm test acc) \<le> mappedCount acc + 1"
  by (simp add: scanTest_def categorizeTestResult_def handleUnsyncedStatus_def mappedCount_def
      Let_def split: SyncStatus.splits)

lemma fold_scanTest_counts:
  "testCount (fold (scanTest sc mm) tests acc) = testCount acc
   \<and> mappedCount acc \<le> mappedCount (fold (scanTest sc mm) tests acc)
   \<and> mappedCount (fold (scanTest sc mm) tests acc) \<le> mappedCount acc + int (length tests)"
proof (induction tests arbitrary: acc)
  case Nil
  then show ?case by simp
next
  case (Cons t ts)
  from Cons [of "scanTest sc mm t acc"] scanTest_counts [of sc mm t acc]
  show ?case by simp
qed

lemma scanFile_counts:
  assumes "scanFile sc p = Inr r"
  shows "0 \<le> mappedCount r \<and> mappedCount r \<le> testCount r"
proof -
  from assms obtain tests ms where
    r: "r = fold (scanTest sc (createMappingMap ms)) tests
          \<lparr>filePath = p, testCount = int (length tests), syncedCount = 0, unmappedCount = 0,
           outOfSyncCount = 0, validationErrorCount = 0, issues_f = []\<rparr>"
    by (auto simp: scanFile_def split: sum.splits)
  show ?thesis
    unfolding r
    using fold_scanTest_counts [of sc "createMappingMap ms" tests
        "\<lparr>filePath = p, testCount = int (length tests), syncedCount = 0, unmappedCount = 0,
          outOfSyncCount = 0, validationErrorCount = 0, issues_f = []\<rparr>"]
    by (simp add: mappedCount_def)
qed

lemma scanAllFiles_counts:
  "\<forall>r \<in> set (scanAllFiles sc files). 0 \<le> mappedCount r \<and> mappedCount r \<le> testCount r"
proof (induction files)
  case Nil
  then show ?case by simp
next
  case (Cons p ps)
  have "0 \<le> mappedCount (case scanFile sc p of Inl err \<Rightarrow> createErrorFileResult p err | Inr r \<Rightarrow> r)
      \<and> mappedCount (case scanFile sc p of Inl err \<Rightarrow> createErrorFileResult p err | Inr r \<Rightarrow> r)
          \<le> testCount (case scanFile sc p of Inl err \<Rightarrow> createErrorFileResult p err | Inr r \<Rightarrow> r)"
  proof (cases "scanFile sc p")
    case (Inl err)
    then show ?thesis by (simp add: createErrorFileResult_def mappedCount_def)
  next
    case (Inr r)
    with scanFile_counts [OF Inr] show ?thesis by simp
  qed
  with Cons show ?case by simp
qed

lemma sum_list_mapped:
  assumes "\<forall>r \<in> set rs. 0 \<le> mappedCount r \<and> mappedCount r \<le> testCount r"
  shows "0 \<le> sum_list (map syncedCount rs) + sum_list (map outOfSyncCount rs)
       \<and> sum_list (map syncedCount rs) + sum_list (map outOfSyncCount rs)
           \<le> sum_list (map testCount rs)"
  using assms by (induction rs) (auto simp: mappedCount_def)

lemma syncCoverage_range:
  "0 \<le> syncCoverage (calculateMetrics (scanAllFiles sc files))
   \<and> syncCoverage (calculateMetrics (scanAllFiles sc files)) \<le> 100"
proof -
  let ?rs = "scanAllFiles sc files"
  note s = sum_list_mapped [OF scanAllFiles_counts [of sc files]]
  show ?thesis
  proof (cases "0 < sum_list (map testCount ?rs)")
    case True
    with percentage_bounds [OF s [THEN conjunct1] s [THEN conjunct2] True] show ?thesis
      by (simp add: calculateMetrics_def Let_def)
  next
    case False
    then show ?thesis
      by (simp add: calculateMetrics_def Let_def)
  qed
qed

text \<open>
  Claim C3. The two percentages are required to lie between 0 and 100. Scanning one
  readable file with one test and two unreadable files gives one test and two validation
  errors, and a documentation compliance of -100.
\<close>

theorem calculateMetrics_compliance_below_zero:
  "calculateMetrics (scanAllFiles exampleScanner [''f1.spec.ts'', ''f5.spec.ts'', ''f7.spec.ts''])
   = \<lparr>totalTests = 1, syncedTests = 0, unmappedTests = 0, outOfSyncTests = 1,
      validationErrors = 2, syncCoverage = 100, documentationCompliance = - 100\<rparr>"
  by (simp add: scanFile_login scanFile_unreadable)
     (simp add: createErrorFileResult_def calculateMetrics_def percentage_def)

section \<open>Loading a mapping file\<close>

lemmas mapping_eval = loadMapping_def validateMapping_def isObject_def hasProperty_def
  getProperty_def requiredFields_def requiredMetadataFields_def completeEntry_def

lemma find_missing_None:
  "find (\<lambda>f. \<not> hasProperty f v) fs = None \<longleftrightarrow> list_all (\<lambda>f. hasProperty f v) fs"
  by (auto simp: find_None_iff list_all_iff)

lemma hasProperty_getProperty: "hasProperty f v \<longleftrightarrow> getProperty f v \<noteq> None"
  by (cases v) (auto simp: hasProperty_def getProperty_def map_of_eq_None_iff)

lemma hasProperty_isObject: "hasProperty f v \<Longrightarrow> isObject (Some v)"
  by (cases v) (simp_all add: hasProperty_def isObject_def)

lemma validateMapping_ok: "validateMapping e = Inr () \<longleftrightarrow> completeEntry e"
proof (cases "list_all (\<lambda>f. hasProperty f e) requiredFields")
  case False
  then have "\<exists>f. find (\<lambda>f. \<not> hasProperty f e) requiredFields = Some f"
    using find_missing_None [of e requiredFields] by auto
  with False show ?thesis
    by (auto simp: validateMapping_def completeEntry_def)
next
  case True
  then have none: "find (\<lambda>f. \<not> hasProperty f e) requiredFields = None"
    by (simp add: find_missing_None)
  from True have "hasProperty ''metadata'' e"
    by (simp add: requiredFields_def)
  then obtain md where md: "getProperty ''metadata'' e = Some md" and obj: "isObject (Some e)"
    using hasProperty_getProperty hasProperty_isObject by blast
  show ?thesis
  proof (cases "list_all (\<lambda>f. hasProperty f md) requiredMetadataFields")
    case all: True
    then have "hasProperty ''createdAt'' md"
      by (simp add: requiredMetadataFields_def)
    then have "isObject (Some md)"
      by (rule hasProperty_isObject)
    moreover from all have "find (\<lambda>f. \<not> hasProperty f md) requiredMetadataFields = None"
      by (simp add: find_missing_None)
    ultimately show ?thesis
      using all True none md obj by (simp add: validateMapping_def completeEntry_def)
  next
    case nall: False
    then have "\<exists>f. find (\<lambda>f. \<not> hasProperty f md) requiredMetadataFields = Some f"
      using find_missing_None [of md requiredMetadataFields] by auto
    with nall True none md obj show ?thesis
      by (auto simp: validateMapping_def completeEntry_def Let_def)
  qed
qed

lemma validateAll_ok: "validateAll es = Inr () \<longleftrightarrow> list_all completeEntry es"
proof (induction es)
  case Nil
  then show ?case by simp
next
  case (Cons e es)
  then show ?case
    using validateMapping_ok [of e] by (auto split: sum.splits)
qed

text \<open>
  Claim C9. \<open>loadMapping\<close> returns the empty array, and throws nothing, when the file is
  missing. When the file is there, it throws exactly when the content is not valid JSON, or
  is JSON but not an array, or is an array with an entry that lacks one of id, testFilePath,
  testTitle, syncStatus and metadata, or whose metadata lacks one of createdAt, updatedAt,
  createdBy and syncCount; otherwise it returns the entries of the array as they are.
\<close>

theorem loadMapping_contract:
  "(files path = None \<longrightarrow> loadMapping files jsonParse path = Inr [])
   \<and> (\<forall>content. files path = Some content \<longrightarrow>
        ((\<exists>err. loadMapping files jsonParse path = Inl err) \<longleftrightarrow>
           jsonParse content = None
           \<or> (\<exists>d. jsonParse content = Some d \<and> (\<forall>es. d \<noteq> JArray es))
           \<or> (\<exists>es. jsonParse content = Some (JArray es) \<and> (\<exists>e \<in> set es. \<not> completeEntry e)))
        \<and> (\<forall>es. jsonParse content = Some (JArray es) \<and> (\<forall>e \<in> set es. completeEntry e)
              \<longrightarrow> loadMapping files jsonParse path = Inr es))"
proof -
  have ok: "validateAll es = Inr () \<longleftrightarrow> (\<forall>e \<in> set es. completeEntry e)" for es
    by (simp add: validateAll_ok list_all_iff)
  have bad: "(\<exists>err. validateAll es = Inl err) \<longleftrightarrow> (\<exists>e \<in> set es. \<not> completeEntry e)" for es
    using ok [of es] by (cases "validateAll es") auto
  show ?thesis
    using ok bad
    by (auto simp: loadMapping_def split: option.splits json.splits sum.splits)
qed

theorem loadMapping_contract_witness:
  "exampleFiles ''none.mapping.json'' = None
   \<and> loadMapping exampleFiles exampleParse ''none.mapping.json'' = Inr []
   \<and> exampleFiles ''good.mapping.json'' = Some goodText
   \<and> exampleParse goodText = Some (JArray [goodEntry])
   \<and> completeEntry goodEntry
   \<and> loadMapping exampleFiles exampleParse ''good.mapping.json'' = Inr [goodEntry]
   \<and> exampleFiles ''broken.mapping.json'' = Some ''[{''
   \<and> exampleParse ''[{'' = None
   \<and> (\<exists>err. loadMapping exampleFiles exampleParse ''broken.mapping.json'' = Inl err)"
proof -
  have n: "exampleFiles ''none.mapping.json'' = None"
    by (simp add: exampleFiles_def)
  have g: "exampleFiles ''good.mapping.json'' = Some goodText"
    "exampleParse goodText = Some (JArray [goodEntry])"
    "completeEntry goodEntry"
    by (simp_all add: exampleFiles_def exampleParse_def mapping_eval goodEntry_def)
  have b: "exampleFiles ''broken.mapping.json'' = Some ''[{''" "exampleParse ''[{'' = None"
    by (simp_all add: exampleFiles_def exampleParse_def goodText_def)
  from n have 1: "loadMapping exampleFiles exampleParse ''none.mapping.json'' = Inr []"
    using loadMapping_contract [of exampleFiles "''none.mapping.json''" exampleParse] by simp
  from g have 2: "loadMapping exampleFiles exampleParse ''good.mapping.json'' = Inr [goodEntry]"
    using loadMapping_contract [of exampleFiles "''good.mapping.json''" exampleParse] by simp
  from b have 3: "\<exists>err. loadMapping exampleFiles exampleParse ''broken.mapping.json'' = Inl err"
    using loadMapping_contract [of exampleFiles "''broken.mapping.json''" exampleParse] by blast
  from n g b 1 2 3 show ?thesis
    by blast
qed

section \<open>Titles and case IDs\<close>

lemma take1_colon: "take 1 xs = '':'' \<longleftrightarrow> (\<exists>rest. xs = CHR '':'' # rest)"
  by (cases xs) auto

lemma take2_dashT: "take 2 xs = ''-T'' \<longleftrightarrow> (\<exists>rest. xs = ''-T'' @ rest)"
  by (cases xs; cases "tl xs") (auto simp: numeral_2_eq_2)

lemma run_split:
  "list_all P ds \<Longrightarrow> \<not> P c \<Longrightarrow>
   takeWhile P (ds @ c # rest) = ds \<and> dropWhile P (ds @ c # rest) = c # rest"
  by (simp add: list_all_iff takeWhile_append2 dropWhile_append2)

lemma run_found:
  "dropWhile P r = c # rest \<Longrightarrow>
   r = takeWhile P r @ c # rest \<and> list_all P (takeWhile P r)"
  by (metis takeWhile_dropWhile_id list_all_iff set_takeWhileD)

lemma not_digit_colon: "\<not> isDigit CHR '':''"
  by (simp add: isDigit_def)

lemma not_upper_dash: "\<not> isUpper CHR ''-''"
  by (simp add: isUpper_def)



lemma extractTestCaseId_Some:
  "extractTestCaseId key t = Some cid \<longleftrightarrow>
     (\<exists>ds rest. ds \<noteq> [] \<and> list_all isDigit ds \<and> cid = key @ ''-T'' @ ds \<and> t = cid @ '':'' @ rest)"
proof
  assume a: "extractTestCaseId key t = Some cid"
  define p where "p = key @ ''-T''"
  define r where "r = drop (length p) t"
  define ds where "ds = takeWhile isDigit r"
  from a have p: "take (length p) t = p" and ne: "ds \<noteq> []"
    and c: "take 1 (dropWhile isDigit r) = '':''" and cid: "cid = p @ ds"
    by (auto simp: extractTestCaseId_def Let_def p_def r_def ds_def split: if_splits)
  from c obtain rest where dw: "dropWhile isDigit r = CHR '':'' # rest"
    unfolding take1_colon by blast
  have r: "r = ds @ CHR '':'' # rest"
    unfolding ds_def by (rule run_found [OF dw, THEN conjunct1])
  have d: "list_all isDigit ds"
    unfolding ds_def by (rule run_found [OF dw, THEN conjunct2])
  have t: "t = p @ r"
    unfolding r_def by (metis p append_take_drop_id)
  have "cid = key @ ''-T'' @ ds" "t = cid @ '':'' @ rest"
    using t r cid by (simp_all add: p_def)
  with ne d show "\<exists>ds rest. ds \<noteq> [] \<and> list_all isDigit ds \<and> cid = key @ ''-T'' @ ds
      \<and> t = cid @ '':'' @ rest"
    by blast
next
  assume "\<exists>ds rest. ds \<noteq> [] \<and> list_all isDigit ds \<and> cid = key @ ''-T'' @ ds \<and> t = cid @ '':'' @ rest"
  then obtain ds rest where ds: "ds \<noteq> []" "list_all isDigit ds" and cid: "cid = key @ ''-T'' @ ds"
    and t: "t = (key @ ''-T'') @ ds @ CHR '':'' # rest"
    by auto
  from ds have "takeWhile isDigit (ds @ CHR '':'' # rest) = ds"
    "dropWhile isDigit (ds @ CHR '':'' # rest) = CHR '':'' # rest"
    using run_split [of isDigit ds "CHR '':''" rest] not_digit_colon by simp_all
  with ds cid show "extractTestCaseId key t = Some cid"
    unfolding extractTestCaseId_def t by (simp add: Let_def)
qed

lemma extractTestCaseId_None:
  "extractTestCaseId key t = None \<longleftrightarrow>
     \<not> (\<exists>ds rest. ds \<noteq> [] \<and> list_all isDigit ds \<and> t = key @ ''-T'' @ ds @ '':'' @ rest)"
proof
  assume none: "extractTestCaseId key t = None"
  show "\<not> (\<exists>ds rest. ds \<noteq> [] \<and> list_all isDigit ds \<and> t = key @ ''-T'' @ ds @ '':'' @ rest)"
  proof
    assume "\<exists>ds rest. ds \<noteq> [] \<and> list_all isDigit ds \<and> t = key @ ''-T'' @ ds @ '':'' @ rest"
    then obtain ds rest where ds: "ds \<noteq> []" "list_all isDigit ds"
      and t: "t = key @ ''-T'' @ ds @ '':'' @ rest"
      by auto
    have "\<exists>ds' rest'. ds' \<noteq> [] \<and> list_all isDigit ds' \<and> key @ ''-T'' @ ds = key @ ''-T'' @ ds'
        \<and> t = (key @ ''-T'' @ ds) @ '':'' @ rest'"
      by (rule exI [of _ ds], rule exI [of _ rest]) (simp add: ds t)
    then have "extractTestCaseId key t = Some (key @ ''-T'' @ ds)"
      by (rule extractTestCaseId_Some [THEN iffD2])
    with none show False by simp
  qed
next
  assume no: "\<not> (\<exists>ds rest. ds \<noteq> [] \<and> list_all isDigit ds \<and> t = key @ ''-T'' @ ds @ '':'' @ rest)"
  show "extractTestCaseId key t = None"
  proof (rule ccontr)
    assume "extractTestCaseId key t \<noteq> None"
    then obtain cid where "extractTestCaseId key t = Some cid"
      by auto
    then have "\<exists>ds rest. ds \<noteq> [] \<and> list_all isDigit ds \<and> cid = key @ ''-T'' @ ds
        \<and> t = cid @ '':'' @ rest"
      by (rule extractTestCaseId_Some [THEN iffD1])
    then obtain ds rest where ds: "ds \<noteq> []" "list_all isDigit ds" and cid: "cid = key @ ''-T'' @ ds"
      and t: "t = cid @ '':'' @ rest"
      by auto
    have "\<exists>ds rest. ds \<noteq> [] \<and> list_all isDigit ds \<and> t = key @ ''-T'' @ ds @ '':'' @ rest"
      by (rule exI [of _ ds], rule exI [of _ rest]) (simp add: ds t cid)
    with no show False ..
  qed
qed

lemma titleWithoutId_match:
  assumes "us \<noteq> []" "list_all isUpper us" "ds \<noteq> []" "list_all isDigit ds"
  shows "titleWithoutId (us @ ''-T'' @ ds @ '':'' @ rest) = dropWhile isSpace rest"
proof -
  have u: "takeWhile isUpper (us @ CHR ''-'' # CHR ''T'' # ds @ CHR '':'' # rest) = us"
    "dropWhile isUpper (us @ CHR ''-'' # CHR ''T'' # ds @ CHR '':'' # rest) = CHR ''-'' # CHR ''T'' # ds @ CHR '':'' # rest"
    using run_split [of isUpper us "CHR ''-''"] assms not_upper_dash by simp_all
  have d: "takeWhile isDigit (ds @ CHR '':'' # rest) = ds"
    "dropWhile isDigit (ds @ CHR '':'' # rest) = CHR '':'' # rest"
    using run_split [of isDigit ds "CHR '':''" rest] assms not_digit_colon by simp_all
  show ?thesis
    using assms by (simp add: titleWithoutId_def u d)
qed


lemma titleWithoutId_no_match:
  assumes "\<not> (\<exists>us ds rest. us \<noteq> [] \<and> list_all isUpper us \<and> ds \<noteq> [] \<and> list_all isDigit ds
                \<and> t = us @ ''-T'' @ ds @ '':'' @ rest)"
  shows "titleWithoutId t = t"
proof (rule ccontr)
  assume n: "titleWithoutId t \<noteq> t"
  define us where "us = takeWhile isUpper t"
  define r1 where "r1 = dropWhile isUpper t"
  define r2 where "r2 = drop 2 r1"
  define ds where "ds = takeWhile isDigit r2"
  from n have us: "us \<noteq> []" and dt: "take 2 r1 = ''-T''" and ds: "ds \<noteq> []"
    and c: "take 1 (dropWhile isDigit r2) = '':''"
    by (auto simp: titleWithoutId_def Let_def us_def r1_def r2_def ds_def split: if_splits)
  from c obtain rest where dw: "dropWhile isDigit r2 = CHR '':'' # rest"
    unfolding take1_colon by blast
  have r2: "r2 = ds @ CHR '':'' # rest"
    unfolding ds_def by (rule run_found [OF dw, THEN conjunct1])
  have d: "list_all isDigit ds"
    unfolding ds_def by (rule run_found [OF dw, THEN conjunct2])
  have r1: "r1 = ''-T'' @ r2"
    unfolding r2_def by (metis dt append_take_drop_id)
  have t: "t = us @ r1"
    unfolding us_def r1_def by simp
  have u: "list_all isUpper us"
    unfolding us_def by (auto simp: list_all_iff dest: set_takeWhileD)
  have teq: "t = us @ ''-T'' @ ds @ '':'' @ rest"
    using t r1 r2 by simp
  have "\<exists>us ds rest. us \<noteq> [] \<and> list_all isUpper us \<and> ds \<noteq> [] \<and> list_all isDigit ds
      \<and> t = us @ ''-T'' @ ds @ '':'' @ rest"
    by (rule exI [of _ us], rule exI [of _ ds], rule exI [of _ rest]) (simp add: us u ds d teq)
  with assms show False ..
qed

lemma case_id_issues_of_validate:
  "filter (\<lambda>i. category i = TestCaseId) (issues (validate cfg t)) = caseIdIssues cfg t"
  by (simp add: validate_eval)

lemma title_issues_of_validate:
  "filter (\<lambda>i. category i = TestTitle) (issues (validate cfg t)) = titleIssues t"
  by (simp add: validate_eval)

lemma issue_categories:
  "category (missingObjective l) = Documentation" "category (missingActionSteps l) = ActionSteps"
  "category (missingVerificationSteps l) = VerificationSteps"
  "category (missingTestCaseId k l) = TestCaseId" "category (invalidTestCaseId k c l) = TestCaseId"
  "category (titleTooShort l) = TestTitle"
  by (simp_all add: validate_eval)

lemma in_issues_category:
  "i \<in> set (issues (validate cfg t)) \<and> category i = c \<longleftrightarrow>
   i \<in> set (filter (\<lambda>i. category i = c) (issues (validate cfg t)))"
  by auto

text \<open>
  Claim C7, as the code has it. \<open>validate\<close> reports the title-too-short issue (a warning
  of the title category, and the only issue of that category) exactly when the title has
  fewer than 10 characters once a leading match of \<open>^[A-Z]+-T\d+:\s*\<close> is removed: one or
  more capital letters, \<open>-T\<close>, one or more digits, a colon and the white space after it.
  The letters need not be the configured project key; a title with no such prefix is
  measured whole.
\<close>

theorem title_too_short_rule:
  "(titleTooShort (lineNumber_t t) \<in> set (issues (validate cfg t))
      \<longleftrightarrow> length (titleWithoutId (title t)) < 10)
   \<and> (\<forall>i \<in> set (issues (validate cfg t)).
         category i = TestTitle \<longrightarrow> i = titleTooShort (lineNumber_t t) \<and> severity i = Warning)
   \<and> (us \<noteq> [] \<and> list_all isUpper us \<and> ds \<noteq> [] \<and> list_all isDigit ds
        \<longrightarrow> titleWithoutId (us @ ''-T'' @ ds @ '':'' @ rest) = dropWhile isSpace rest)
   \<and> (\<not> (\<exists>us ds rest. us \<noteq> [] \<and> list_all isUpper us \<and> ds \<noteq> [] \<and> list_all isDigit ds
               \<and> ttl = us @ ''-T'' @ ds @ '':'' @ rest)
        \<longrightarrow> titleWithoutId ttl = ttl)"
proof -
  have m: "i \<in> set (issues (validate cfg t)) \<and> category i = TestTitle \<longleftrightarrow> i \<in> set (titleIssues t)"
    for i
    unfolding in_issues_category title_issues_of_validate ..
  have "titleTooShort (lineNumber_t t) \<in> set (issues (validate cfg t))
      \<longleftrightarrow> titleTooShort (lineNumber_t t) \<in> set (titleIssues t)"
    using m [of "titleTooShort (lineNumber_t t)"] by (simp add: issue_categories)
  then have a: "titleTooShort (lineNumber_t t) \<in> set (issues (validate cfg t))
      \<longleftrightarrow> length (titleWithoutId (title t)) < 10"
    by (simp add: titleIssues_def)
  have b: "\<forall>i \<in> set (issues (validate cfg t)).
         category i = TestTitle \<longrightarrow> i = titleTooShort (lineNumber_t t) \<and> severity i = Warning"
  proof (intro ballI impI)
    fix i assume "i \<in> set (issues (validate cfg t))" "category i = TestTitle"
    then have "i \<in> set (titleIssues t)" using m by blast
    then have "i = titleTooShort (lineNumber_t t)"
      by (simp add: titleIssues_def split: if_splits)
    then show "i = titleTooShort (lineNumber_t t) \<and> severity i = Warning"
      by (simp add: titleTooShort_def)
  qed
  have c: "us \<noteq> [] \<and> list_all isUpper us \<and> ds \<noteq> [] \<and> list_all isDigit ds
        \<longrightarrow> titleWithoutId (us @ ''-T'' @ ds @ '':'' @ rest) = dropWhile isSpace rest"
    using titleWithoutId_match [of us ds rest] by (intro impI) (elim conjE)
  have d: "\<not> (\<exists>us ds rest. us \<noteq> [] \<and> list_all isUpper us \<and> ds \<noteq> [] \<and> list_all isDigit ds
               \<and> ttl = us @ ''-T'' @ ds @ '':'' @ rest)
        \<longrightarrow> titleWithoutId ttl = ttl"
    by (intro impI) (rule titleWithoutId_no_match)
  from a b c d show ?thesis
    by (intro conjI)
qed

lemma validate_PROJ:
  "issues (validate defaultValidation (exampleTest ''MM'' ''PROJ-T123: Log in''))
     = [missingTestCaseId ''MM'' 3, titleTooShort 3]"
  by (simp add: validate_eval defaultValidation_def exampleTest_def loginTest_def
      parseTestCallExpression_def extractTestCaseId_def)

lemma validate_MM:
  "issues (validate defaultValidation (exampleTest ''MM'' ''MM-T1: Open chat'')) = [titleTooShort 3]"
  by (simp add: validate_eval defaultValidation_def exampleTest_def loginTest_def
      parseTestCallExpression_def extractTestCaseId_def)

text \<open>
  Claim C7 as stated strips the case ID of the configured project key and its colon. With
  project key MM, the title \<open>PROJ-T123: Log in\<close> keeps its 17 characters under that
  reading and \<open>MM-T1: Open chat\<close> keeps 10, yet both get the warning.
\<close>

theorem title_too_short_counterexample:
  "titleTooShort 3 \<in> set (issues (validate defaultValidation (exampleTest ''MM'' ''PROJ-T123: Log in'')))
   \<and> \<not> length (titleWithoutProjectPrefix_spec ''MM'' ''PROJ-T123: Log in'') < 10
   \<and> titleTooShort 3 \<in> set (issues (validate defaultValidation (exampleTest ''MM'' ''MM-T1: Open chat'')))
   \<and> \<not> length (titleWithoutProjectPrefix_spec ''MM'' ''MM-T1: Open chat'') < 10"
  by (simp add: validate_PROJ validate_MM)
     (simp add: titleWithoutProjectPrefix_spec_def extractTestCaseId_def isDigit_def)

theorem title_too_short_rule_witness:
  "''PROJ'' \<noteq> [] \<and> list_all isUpper ''PROJ'' \<and> ''123'' \<noteq> [] \<and> list_all isDigit ''123''
   \<and> titleWithoutId (title (exampleTest ''MM'' ''PROJ-T123: Log in'')) = ''Log in''
   \<and> length ''Log in'' < 10
   \<and> titleTooShort 3 \<in> set (issues (validate defaultValidation (exampleTest ''MM'' ''PROJ-T123: Log in'')))"
proof -
  have h: "''PROJ'' \<noteq> [] \<and> list_all isUpper ''PROJ'' \<and> ''123'' \<noteq> [] \<and> list_all isDigit ''123''"
    by (simp add: isUpper_def isDigit_def)
  have t: "title (exampleTest ''MM'' ''PROJ-T123: Log in'') = ''PROJ'' @ ''-T'' @ ''123'' @ '':'' @ '' Log in''"
    "lineNumber_t (exampleTest ''MM'' ''PROJ-T123: Log in'') = 3"
    by (simp_all add: exampleTest_def parseTestCallExpression_def)
  note r = title_too_short_rule [of "exampleTest ''MM'' ''PROJ-T123: Log in''" defaultValidation
      "''PROJ''" "''123''" "'' Log in''" "''Log in''"]
  have w: "titleWithoutId (''PROJ'' @ ''-T'' @ ''123'' @ '':'' @ '' Log in'') = dropWhile isSpace '' Log in''"
    by (rule mp [OF r [THEN conjunct2, THEN conjunct2, THEN conjunct1] h])
  then have w': "titleWithoutId (title (exampleTest ''MM'' ''PROJ-T123: Log in'')) = ''Log in''"
    unfolding t by (simp add: isSpace_def)
  from r [THEN conjunct1] w'
  have "titleTooShort 3 \<in> set (issues (validate defaultValidation (exampleTest ''MM'' ''PROJ-T123: Log in'')))"
    unfolding t(2) by simp
  with h w' show ?thesis by simp
qed

lemma in_case_id_issues:
  "i \<in> set (issues (validate cfg t)) \<and> category i = TestCaseId \<longleftrightarrow> i \<in> set (caseIdIssues cfg t)"
  unfolding in_issues_category case_id_issues_of_validate ..

lemma caseIdIssues_absent:
  "testCaseId t = None \<Longrightarrow>
   caseIdIssues cfg t = [missingTestCaseId (validatorKey cfg) (lineNumber_t t)]"
  by (simp add: caseIdIssues_def truthy_def)

lemma parsed_fields:
  "title (parseTestCallExpression key ttl ty tags acts vers line) = ttl"
  "testCaseId (parseTestCallExpression key ttl ty tags acts vers line) = extractTestCaseId key ttl"
  "lineNumber_t (parseTestCallExpression key ttl ty tags acts vers line) = line"
  by (simp_all add: parseTestCallExpression_def)

text \<open>
  Claim C8. For a project key that the pattern matches literally, the parser's case ID is
  the capture of \<open>^({key}-T\d+):\<close> on the title: the key, \<open>-T\<close> and one or more digits,
  when the title starts with these and a colon, and absent otherwise. The title is kept as
  it is either way. With key MM, \<open>MM-T12345: User can log in\<close> gives MM-T12345 and
  \<open>PROJ-T123: ...\<close> gives no case ID; for a test parsed without a case ID validation
  reports the missing-case-id warning and no other case-id issue.
\<close>

theorem extractTestCaseId_capture:
  assumes "regexLiteral key"
  shows
  "(extractTestCaseId key ttl = Some cid \<longleftrightarrow>
      (\<exists>ds rest. ds \<noteq> [] \<and> list_all isDigit ds \<and> cid = key @ ''-T'' @ ds
                 \<and> ttl = cid @ '':'' @ rest))
   \<and> (extractTestCaseId key ttl = None \<longleftrightarrow>
      \<not> (\<exists>ds rest. ds \<noteq> [] \<and> list_all isDigit ds \<and> ttl = key @ ''-T'' @ ds @ '':'' @ rest))
   \<and> title (parseTestCallExpression key ttl ty tags acts vers line) = ttl
   \<and> testCaseId (parseTestCallExpression key ttl ty tags acts vers line)
       = extractTestCaseId key ttl
   \<and> (extractTestCaseId key ttl = None \<longrightarrow>
        missingTestCaseId (validatorKey cfg) line
          \<in> set (issues (validate cfg (parseTestCallExpression key ttl ty tags acts vers line)))
        \<and> severity (missingTestCaseId (validatorKey cfg) line) = Warning
        \<and> (\<forall>i \<in> set (issues (validate cfg (parseTestCallExpression key ttl ty tags acts vers line))).
              category i = TestCaseId \<longrightarrow> i = missingTestCaseId (validatorKey cfg) line))
   \<and> extractTestCaseId ''MM'' ''MM-T12345: User can log in'' = Some ''MM-T12345''
   \<and> extractTestCaseId ''MM'' ''PROJ-T123: ...'' = None"
proof -
  let ?t = "parseTestCallExpression key ttl ty tags acts vers line"
  have v: "missingTestCaseId (validatorKey cfg) line \<in> set (issues (validate cfg ?t))
        \<and> severity (missingTestCaseId (validatorKey cfg) line) = Warning
        \<and> (\<forall>i \<in> set (issues (validate cfg ?t)).
              category i = TestCaseId \<longrightarrow> i = missingTestCaseId (validatorKey cfg) line)"
    if none: "extractTestCaseId key ttl = None"
  proof -
    from none have c: "caseIdIssues cfg ?t = [missingTestCaseId (validatorKey cfg) line]"
      using caseIdIssues_absent [of ?t cfg] by (simp add: parsed_fields)
    have "missingTestCaseId (validatorKey cfg) line \<in> set (caseIdIssues cfg ?t)"
      by (simp add: c)
    then have 1: "missingTestCaseId (validatorKey cfg) line \<in> set (issues (validate cfg ?t))"
      using in_case_id_issues by blast
    have 2: "severity (missingTestCaseId (validatorKey cfg) line) = Warning"
      by (simp add: missingTestCaseId_def)
    have 3: "\<forall>i \<in> set (issues (validate cfg ?t)).
              category i = TestCaseId \<longrightarrow> i = missingTestCaseId (validatorKey cfg) line"
    proof (intro ballI impI)
      fix i assume "i \<in> set (issues (validate cfg ?t))" "category i = TestCaseId"
      then have "i \<in> set (caseIdIssues cfg ?t)" using in_case_id_issues by blast
      then show "i = missingTestCaseId (validatorKey cfg) line" by (simp add: c)
    qed
    from 1 2 3 show ?thesis by (intro conjI)
  qed
  have e1: "extractTestCaseId ''MM'' ''MM-T12345: User can log in'' = Some ''MM-T12345''"
    by (simp add: extractTestCaseId_def isDigit_def)
  have e2: "extractTestCaseId ''MM'' ''PROJ-T123: ...'' = None"
    by (simp add: extractTestCaseId_def)
  have v': "extractTestCaseId key ttl = None \<longrightarrow>
        missingTestCaseId (validatorKey cfg) line \<in> set (issues (validate cfg ?t))
        \<and> severity (missingTestCaseId (validatorKey cfg) line) = Warning
        \<and> (\<forall>i \<in> set (issues (validate cfg ?t)).
              category i = TestCaseId \<longrightarrow> i = missingTestCaseId (validatorKey cfg) line)"
    using v by (rule impI)
  from extractTestCaseId_Some [of key ttl cid] extractTestCaseId_None [of key ttl]
    parsed_fields(1,2) [of key ttl ty tags acts vers line] v' e1 e2
  show ?thesis
    by (intro conjI)
qed

theorem extractTestCaseId_capture_witness:
  "regexLiteral ''MM''
   \<and> extractTestCaseId ''MM'' ''MM-T12345: User can log in'' = Some ''MM-T12345''
   \<and> title (exampleTest ''MM'' ''MM-T12345: User can log in'') = ''MM-T12345: User can log in''
   \<and> extractTestCaseId ''MM'' ''PROJ-T123: ...'' = None
   \<and> missingTestCaseId ''MM'' 3
        \<in> set (issues (validate defaultValidation (exampleTest ''MM'' ''PROJ-T123: ...'')))
   \<and> severity (missingTestCaseId ''MM'' 3) = Warning"
proof -
  have k: "regexLiteral ''MM''"
    by (simp add: regexLiteral_def)
  have vk: "validatorKey defaultValidation = ''MM''"
    by (simp add: validatorKey_def defaultValidation_def truthy_def)
  note c = extractTestCaseId_capture [OF k, of "''PROJ-T123: ...''" "''MM-T123''" Test
      "jsdocTags loginTest" "actionSteps loginTest" "verificationSteps loginTest" 3 defaultValidation]
  note d = extractTestCaseId_capture [OF k, of "''MM-T12345: User can log in''" "''MM-T12345''" Test
      "jsdocTags loginTest" "actionSteps loginTest" "verificationSteps loginTest" 3 defaultValidation]
  note c2 = c [THEN conjunct2, THEN conjunct2]
  note c4 = c2 [THEN conjunct2, THEN conjunct2]
  have s: "extractTestCaseId ''MM'' ''MM-T12345: User can log in'' = Some ''MM-T12345''"
    by (rule c4 [THEN conjunct2, THEN conjunct1])
  have n: "extractTestCaseId ''MM'' ''PROJ-T123: ...'' = None"
    by (rule c4 [THEN conjunct2, THEN conjunct2])
  have t: "title (exampleTest ''MM'' ''MM-T12345: User can log in'') = ''MM-T12345: User can log in''"
    unfolding exampleTest_def by (rule d [THEN conjunct2, THEN conjunct2, THEN conjunct1])
  have m: "missingTestCaseId (validatorKey defaultValidation) 3
        \<in> set (issues (validate defaultValidation (exampleTest ''MM'' ''PROJ-T123: ...'')))"
    unfolding exampleTest_def by (rule mp [OF c4 [THEN conjunct1] n, THEN conjunct1])
  have w: "severity (missingTestCaseId (validatorKey defaultValidation) 3) = Warning"
    by (rule mp [OF c4 [THEN conjunct1] n, THEN conjunct2, THEN conjunct1])
  from k s t n m w show ?thesis
    unfolding vk by (intro conjI)
qed

lemma extract_wellformed:
  assumes "extractTestCaseId k ttl = Some cid"
  shows "testCasePattern k cid \<and> cid \<noteq> []"
proof -
  from assms obtain ds rest where ds: "ds \<noteq> []" "list_all isDigit ds"
    and cid: "cid = (k @ ''-T'') @ ds"
    unfolding extractTestCaseId_Some by auto
  show ?thesis
    unfolding cid testCasePattern_def using ds by (simp add: Let_def)
qed

lemma keys_agree:
  "projectKey cfg = None \<or> (\<exists>k. projectKey cfg = Some k \<and> k \<noteq> [] \<and> regexLiteral k) \<Longrightarrow>
   parserKey cfg = validatorKey cfg"
  by (auto simp: parserKey_def validatorKey_def truthy_def)

text \<open>
  Claim C10, as the code has it. When the configured project key is absent, or is not
  empty and is matched literally, parser and validator use the same key: every case ID
  the parser extracts matches the validator's pattern, and on a parsed test the only
  case-id issue validation can report is the missing-case-id warning.
\<close>

theorem parsed_caseId_wellformed:
  assumes "projectKey cfg = None \<or> (\<exists>k. projectKey cfg = Some k \<and> k \<noteq> [] \<and> regexLiteral k)"
  shows
  "(\<forall>cid. testCaseId (parseTestCallExpression (parserKey cfg) ttl ty tags acts vers line) = Some cid
       \<longrightarrow> testCasePattern (validatorKey cfg) cid)
   \<and> (\<forall>i \<in> set (issues (validate cfg
                  (parseTestCallExpression (parserKey cfg) ttl ty tags acts vers line))).
         category i = TestCaseId \<longrightarrow>
           i = missingTestCaseId (validatorKey cfg) line \<and> severity i = Warning
           \<and> testCaseId (parseTestCallExpression (parserKey cfg) ttl ty tags acts vers line) = None)"
proof -
  let ?t = "parseTestCallExpression (parserKey cfg) ttl ty tags acts vers line"
  from assms have k: "parserKey cfg = validatorKey cfg"
    by (rule keys_agree)
  have a: "testCasePattern (validatorKey cfg) cid \<and> truthy (Some cid)"
    if "testCaseId ?t = Some cid" for cid
    using that extract_wellformed [of "validatorKey cfg" ttl cid]
    by (simp add: parsed_fields k truthy_def)
  have b: "i = missingTestCaseId (validatorKey cfg) line \<and> severity i = Warning
           \<and> testCaseId ?t = None"
    if i: "i \<in> set (issues (validate cfg ?t))" "category i = TestCaseId" for i
  proof (cases "testCaseId ?t")
    case None
    from i have "i \<in> set (caseIdIssues cfg ?t)"
      using in_case_id_issues by blast
    with None show ?thesis
      using caseIdIssues_absent [of ?t cfg] by (simp add: parsed_fields(3) missingTestCaseId_def)
  next
    case (Some cid)
    with a have "caseIdIssues cfg ?t = []"
      by (simp add: caseIdIssues_def)
    moreover from i have "i \<in> set (caseIdIssues cfg ?t)"
      using in_case_id_issues by blast
    ultimately show ?thesis by simp
  qed
  from a b show ?thesis by blast
qed

theorem parsed_caseId_wellformed_witness:
  "(\<exists>k. projectKey defaultValidation = Some k \<and> k \<noteq> [] \<and> regexLiteral k)
   \<and> testCaseId (exampleTest (parserKey defaultValidation) ''MM-T12345: User can log in'')
       = Some ''MM-T12345''
   \<and> testCasePattern (validatorKey defaultValidation) ''MM-T12345''"
proof -
  have h: "\<exists>k. projectKey defaultValidation = Some k \<and> k \<noteq> [] \<and> regexLiteral k"
    by (simp add: defaultValidation_def regexLiteral_def)
  have c: "testCaseId (exampleTest (parserKey defaultValidation) ''MM-T12345: User can log in'')
       = Some ''MM-T12345''"
    by (simp add: exampleTest_def parsed_fields parserKey_def defaultValidation_def
        extractTestCaseId_def isDigit_def)
  from h have h': "projectKey defaultValidation = None
      \<or> (\<exists>k. projectKey defaultValidation = Some k \<and> k \<noteq> [] \<and> regexLiteral k)"
    by (rule disjI2)
  from parsed_caseId_wellformed [OF h', of "''MM-T12345: User can log in''" Test
      "jsdocTags loginTest" "actionSteps loginTest" "verificationSteps loginTest" 3] c
  have "testCasePattern (validatorKey defaultValidation) ''MM-T12345''"
    unfolding exampleTest_def by blast
  with h c show ?thesis by (intro conjI)
qed

text \<open>
  Claim C10 as stated fails for the empty project key: the parser's default replaces an
  absent key only and it extracts \<open>-T1\<close> with the empty key, while the validator falls
  back to MM for an empty key as well and reports \<open>-T1\<close> as malformed, an error.
\<close>

theorem parsed_caseId_malformed_counterexample:
  "projectKey emptyKeyValidation = Some []
   \<and> testCaseId (exampleTest (parserKey emptyKeyValidation) ''-T1: Open the channel'') = Some ''-T1''
   \<and> invalidTestCaseId ''MM'' ''-T1'' 3
        \<in> set (issues (validate emptyKeyValidation
                  (exampleTest (parserKey emptyKeyValidation) ''-T1: Open the channel'')))
   \<and> category (invalidTestCaseId ''MM'' ''-T1'' 3) = TestCaseId
   \<and> severity (invalidTestCaseId ''MM'' ''-T1'' 3) = Error"
  by (simp add: emptyKeyValidation_def defaultValidation_def exampleTest_def loginTest_def
      parseTestCallExpression_def parserKey_def extractTestCaseId_def validate_eval)

section \<open>Fingerprints\<close>

lemma sortSteps_permuted:
  assumes "mset xs = mset ys" "distinct (map lineNumber ys)"
  shows "sortSteps xs = sortSteps ys"
proof -
  from assms(2) have "inj_on lineNumber (set ys)"
    by (simp add: distinct_map)
  with assms(1) have "sort_key lineNumber ys = sort_key lineNumber xs"
    by (intro sort_key_eq_sort_key) simp_all
  then show ?thesis
    by (simp add: sortSteps_def)
qed

lemma stepTexts_permuted:
  "mset xs = mset ys \<Longrightarrow> distinct (map lineNumber ys) \<Longrightarrow> stepTexts xs = stepTexts ys"
  unfolding stepTexts_def by (drule (1) sortSteps_permuted) simp

lemmas part_defs = objectivePart_def preconditionPart_def actionsPart_def verificationsPart_def
  knownIssuePart_def

text \<open>
  Claim C6, as the code has it. When the recorded lines of the action steps are pairwise
  distinct, and so are those of the verification steps, every reordering of the two
  in-memory lists gives the same hashed string and so the same fingerprint.
\<close>

theorem calculateHash_step_order:
  assumes "mset acts = mset (actionSteps t)" "distinct (map lineNumber (actionSteps t))"
    and "mset vers = mset (verificationSteps t)" "distinct (map lineNumber (verificationSteps t))"
  shows "calculateHash sha (t\<lparr>actionSteps := acts, verificationSteps := vers\<rparr>) = calculateHash sha t"
proof -
  have a: "stepTexts acts = stepTexts (actionSteps t)" "length acts = length (actionSteps t)"
    using stepTexts_permuted [OF assms(1,2)] mset_eq_length [OF assms(1)] by simp_all
  have v: "stepTexts vers = stepTexts (verificationSteps t)"
    "length vers = length (verificationSteps t)"
    using stepTexts_permuted [OF assms(3,4)] mset_eq_length [OF assms(3)] by simp_all
  have "parts (t\<lparr>actionSteps := acts, verificationSteps := vers\<rparr>) = parts t"
    by (simp add: parts_def part_defs a v)
  then show ?thesis
    by (simp add: calculateHash_def normalizedContent_def)
qed

theorem calculateHash_step_order_witness:
  "mset (actionSteps (splitTest\<lparr>actionSteps := rev (actionSteps splitTest)\<rparr>)) = mset (actionSteps splitTest)
   \<and> distinct (map lineNumber (actionSteps splitTest))
   \<and> distinct (map lineNumber (verificationSteps splitTest))
   \<and> calculateHash (\<lambda>s. s) (splitTest\<lparr>actionSteps := rev (actionSteps splitTest)\<rparr>)
       = calculateHash (\<lambda>s. s) splitTest"
proof -
  have d: "distinct (map lineNumber (actionSteps splitTest))"
    "distinct (map lineNumber (verificationSteps splitTest))"
    by (simp_all add: splitTest_def loginTest_def)
  have m: "mset (rev (actionSteps splitTest)) = mset (actionSteps splitTest)"
    "mset (verificationSteps splitTest) = mset (verificationSteps splitTest)"
    by simp_all
  from calculateHash_step_order [OF m(1) d(1) m(2) d(2), of "\<lambda>s. s"] d m
  show ?thesis by simp
qed

text \<open>
  Claim C6 as stated covers every test. The sort is stable and compares lines only, so two
  steps recorded on the same line stay in their in-memory order: exchanging them changes
  the hashed string.
\<close>

theorem calculateHash_step_order_counterexample:
  "mset (actionSteps swappedTest) = mset (actionSteps tiedTest)
   \<and> verificationSteps swappedTest = verificationSteps tiedTest
   \<and> jsdocTags swappedTest = jsdocTags tiedTest
   \<and> normalizedContent tiedTest =
       ''objective:Verify that user can log in'' @ [CHR 0x0A] @
       ''actions:Open menu|Click save'' @ [CHR 0x0A] @ ''verifications:User is logged in''
   \<and> normalizedContent swappedTest =
       ''objective:Verify that user can log in'' @ [CHR 0x0A] @
       ''actions:Click save|Open menu'' @ [CHR 0x0A] @ ''verifications:User is logged in''
   \<and> normalizedContent swappedTest \<noteq> normalizedContent tiedTest
   \<and> calculateHash (\<lambda>s. s) swappedTest \<noteq> calculateHash (\<lambda>s. s) tiedTest"
  by (simp add: tiedTest_def swappedTest_def loginTest_def hash_eval truthy_def isSpace_def)

lemma trim_pad_left:
  assumes "list_all isSpace w"
  shows "trim (w @ s) = trim s"
proof -
  from assms have "dropWhile isSpace (w @ s) = dropWhile isSpace s"
    by (intro dropWhile_append2) (simp add: list_all_iff)
  then show ?thesis
    by (simp add: trim_def)
qed

lemma trim_pad_right:
  assumes "list_all isSpace w"
  shows "trim (s @ w) = trim s"
proof (cases "list_all isSpace s")
  case True
  with assms have "\<forall>x \<in> set (s @ w). isSpace x" "\<forall>x \<in> set s. isSpace x"
    by (auto simp: list_all_iff)
  then have "dropWhile isSpace (s @ w) = []" "dropWhile isSpace s = []"
    by (simp_all only: dropWhile_eq_Nil_conv)
  then show ?thesis
    by (simp only: trim_def)
next
  case False
  then obtain x where "x \<in> set s" "\<not> isSpace x"
    by (auto simp: list_all_iff)
  then have "dropWhile isSpace (s @ w) = dropWhile isSpace s @ w"
    by (rule dropWhile_append1)
  moreover from assms
  have "dropWhile isSpace (rev w @ rev (dropWhile isSpace s)) = dropWhile isSpace (rev (dropWhile isSpace s))"
    by (intro dropWhile_append2) (simp add: list_all_iff)
  ultimately show ?thesis
    by (simp add: trim_def)
qed

lemma trim_pad:
  "list_all isSpace w1 \<Longrightarrow> list_all isSpace w2 \<Longrightarrow> trim (w1 @ s @ w2) = trim s"
  using trim_pad_left [of w1 "s @ w2"] trim_pad_right [of w2 s] by simp

lemma map_insort_key:
  assumes "\<And>z. fst (h z) = f z"
  shows "map h (insort_key f x ys) = insort_key fst (h x) (map h ys)"
  by (induction ys) (simp_all add: assms)

lemma map_sort_key:
  assumes "\<And>z. fst (h z) = f z"
  shows "map h (sort_key f xs) = sort_key fst (map h xs)"
proof (induction xs)
  case Nil
  then show ?case by simp
next
  case (Cons x xs)
  have "map h (insort_key f x (sort_key f xs)) = insort_key fst (h x) (map h (sort_key f xs))"
    using assms by (rule map_insort_key)
  with Cons show ?case by simp
qed

lemma stepTexts_lineAndText:
  "stepTexts xs = map snd (sort_key fst (map lineAndText xs))"
proof -
  have "map lineAndText (sort_key lineNumber xs) = sort_key fst (map lineAndText xs)"
    by (rule map_sort_key) (simp add: lineAndText_def)
  then have "map snd (map lineAndText (sort_key lineNumber xs))
      = map snd (sort_key fst (map lineAndText xs))"
    by (rule arg_cong)
  then show ?thesis
    by (simp add: stepTexts_def sortSteps_def lineAndText_def comp_def)
qed

lemma lineAndText_withStepText:
  assumes "trim s = trim (text_s (steps ! i))"
  shows "map lineAndText (withStepText i s steps) = map lineAndText steps"
proof (cases "i < length steps")
  case True
  have "lineAndText ((steps ! i)\<lparr>text_s := s\<rparr>) = lineAndText (steps ! i)"
    by (simp add: lineAndText_def assms)
  then have "map lineAndText (withStepText i s steps) = (map lineAndText steps)[i := map lineAndText steps ! i]"
    using True by (simp add: withStepText_def map_update)
  then show ?thesis
    by (simp only: list_update_id)
next
  case False
  then show ?thesis
    by (simp add: withStepText_def list_update_beyond)
qed

lemma stepTexts_withStepText:
  "trim s = trim (text_s (steps ! i)) \<Longrightarrow> stepTexts (withStepText i s steps) = stepTexts steps"
  unfolding stepTexts_lineAndText by (drule lineAndText_withStepText) simp

lemma length_withStepText: "length (withStepText i s steps) = length steps"
  by (simp add: withStepText_def)


lemma trim_inner:
  assumes "\<not> list_all isSpace a" "\<not> list_all isSpace b"
  shows "trim (a @ m @ b) = dropWhile isSpace a @ m @ rev (dropWhile isSpace (rev b))"
proof -
  from assms(1) obtain x where "x \<in> set a" "\<not> isSpace x"
    by (auto simp: list_all_iff)
  then have 1: "dropWhile isSpace (a @ (m @ b)) = dropWhile isSpace a @ (m @ b)"
    by (rule dropWhile_append1)
  from assms(2) obtain y where "y \<in> set (rev b)" "\<not> isSpace y"
    by (auto simp: list_all_iff)
  then have 2: "dropWhile isSpace (rev b @ (rev m @ rev (dropWhile isSpace a)))
      = dropWhile isSpace (rev b) @ (rev m @ rev (dropWhile isSpace a))"
    by (rule dropWhile_append1)
  show ?thesis
    by (simp add: trim_def 1 2)
qed

lemma length_trim_inner:
  assumes "\<not> list_all isSpace a" "\<not> list_all isSpace b"
  shows "length (trim (a @ w @ b)) = length (trim (a @ b)) + length w"
  using trim_inner [OF assms, of w] trim_inner [OF assms, of "[]"] by simp

lemma length_join:
  "length (join sep xs) = sum_list (map length xs) + length sep * (length xs - 1)"
  by (induction sep xs rule: join.induct) simp_all

lemma sum_list_sort_key:
  "sum_list (map k (sort_key f xs)) = sum_list (map (k :: 'a \<Rightarrow> nat) xs)"
proof -
  have "mset (map k (sort_key f xs)) = mset (map k xs)"
    by simp
  then have "sum_mset (mset (map k (sort_key f xs))) = sum_mset (mset (map k xs))"
    by (rule arg_cong)
  then show ?thesis
    by (simp only: sum_mset_sum_list)
qed

lemma sum_length_stepTexts:
  "sum_list (map length (stepTexts xs)) = sum_list (map (\<lambda>s. length (trim (text_s s))) xs)"
  using sum_list_sort_key [of "\<lambda>s. length (trim (text_s s))" lineNumber xs]
  by (simp add: stepTexts_def sortSteps_def comp_def)

lemma length_stepTexts: "length (stepTexts xs) = length xs"
  by (simp add: stepTexts_def sortSteps_def)

lemma sum_list_map_update:
  "i < length xs \<Longrightarrow>
   sum_list (map k (xs[i := y])) + k (xs ! i) = sum_list (map k xs) + (k y :: nat)"
proof (induction xs arbitrary: i)
  case Nil
  then show ?case by simp
next
  case (Cons x xs)
  then show ?case by (cases i) auto
qed

lemma length_texts_inner:
  assumes "i < length steps" "text_s (steps ! i) = a @ b"
    and "\<not> list_all isSpace a" "\<not> list_all isSpace b"
  shows "length (join sep (stepTexts (withStepText i (a @ w @ b) steps)))
       = length (join sep (stepTexts steps)) + length w"
proof -
  let ?k = "\<lambda>s. length (trim (text_s s))"
  have "?k ((steps ! i)\<lparr>text_s := a @ w @ b\<rparr>) = ?k (steps ! i) + length w"
    using length_trim_inner [OF assms(3,4), of w] by (simp add: assms(2))
  with sum_list_map_update [OF assms(1), of ?k "(steps ! i)\<lparr>text_s := a @ w @ b\<rparr>"]
  have "sum_list (map ?k (withStepText i (a @ w @ b) steps)) = sum_list (map ?k steps) + length w"
    by (simp add: withStepText_def)
  then show ?thesis
    by (simp add: length_join sum_length_stepTexts length_stepTexts length_withStepText)
qed

lemma length_normalizedContent:
  "length (normalizedContent t) = sum_list (map length (parts t)) + (length (parts t) - 1)"
  by (simp add: normalizedContent_def length_join)

lemma normalizedContent_actions_inner:
  assumes "i < length (actionSteps t)" "text_s (actionSteps t ! i) = a @ b"
    and "\<not> list_all isSpace a" "\<not> list_all isSpace b"
  shows "length (normalizedContent (t\<lparr>actionSteps := withStepText i (a @ w @ b) (actionSteps t)\<rparr>))
       = length (normalizedContent t) + length w"
proof -
  from assms(1) have "actionSteps t \<noteq> []"
    by auto
  with length_texts_inner [OF assms, of "''|''" w] show ?thesis
    by (simp add: length_normalizedContent parts_def part_defs length_withStepText)
qed

lemma normalizedContent_verifications_inner:
  assumes "i < length (verificationSteps t)" "text_s (verificationSteps t ! i) = a @ b"
    and "\<not> list_all isSpace a" "\<not> list_all isSpace b"
  shows "length (normalizedContent
           (t\<lparr>verificationSteps := withStepText i (a @ w @ b) (verificationSteps t)\<rparr>))
       = length (normalizedContent t) + length w"
proof -
  from assms(1) have "verificationSteps t \<noteq> []"
    by auto
  with length_texts_inner [OF assms, of "''|''" w] show ?thesis
    by (simp add: length_normalizedContent parts_def part_defs length_withStepText)
qed


lemma parts_withStepText_actions:
  assumes "trim s = trim (text_s (actionSteps t ! i))"
  shows "parts (t\<lparr>actionSteps := withStepText i s (actionSteps t)\<rparr>) = parts t"
  using stepTexts_withStepText [OF assms]
  by (simp add: parts_def part_defs length_withStepText)

lemma parts_withStepText_verifications:
  assumes "trim s = trim (text_s (verificationSteps t ! i))"
  shows "parts (t\<lparr>verificationSteps := withStepText i s (verificationSteps t)\<rparr>) = parts t"
  using stepTexts_withStepText [OF assms]
  by (simp add: parts_def part_defs length_withStepText)

lemma parts_withObjective:
  assumes "trim s' = trim s" "s \<noteq> []" "s' \<noteq> []"
  shows "parts (withObjective s' t) = parts (withObjective s t)"
  using assms by (simp add: parts_def part_defs withObjective_def truthy_def)

lemma parts_withKnownIssue:
  assumes "trim s' = trim s" "s \<noteq> []" "s' \<noteq> []"
  shows "parts (withKnownIssue s' t) = parts (withKnownIssue s t)"
  using assms by (simp add: parts_def part_defs withKnownIssue_def truthy_def)

lemma parts_withPrecondition_Single:
  assumes "trim s' = trim s" "s \<noteq> []" "s' \<noteq> []"
  shows "parts (withPrecondition (Single s') t) = parts (withPrecondition (Single s) t)"
  using assms
  by (simp add: parts_def part_defs withPrecondition_def hasPrecondition_def preconditions_def)

lemma map_trim_update:
  assumes "trim s = trim (ps ! n)"
  shows "map trim (ps[n := s]) = map trim ps"
proof (cases "n < length ps")
  case True
  with assms have "map trim (ps[n := s]) = (map trim ps)[n := map trim ps ! n]"
    by (simp add: map_update)
  then show ?thesis
    by (simp only: list_update_id)
next
  case False
  then show ?thesis
    by (simp add: list_update_beyond)
qed

lemma parts_withPrecondition_Many:
  assumes "trim s = trim (ps ! n)"
  shows "parts (withPrecondition (Many (ps[n := s])) t) = parts (withPrecondition (Many ps) t)"
  using map_trim_update [OF assms]
  by (simp add: parts_def part_defs withPrecondition_def hasPrecondition_def preconditions_def)

lemma calculateHash_parts: "parts t' = parts t \<Longrightarrow> calculateHash sha t' = calculateHash sha t"
  by (simp add: calculateHash_def normalizedContent_def)

lemma calculateHash_differs:
  assumes "length (normalizedContent t') = length (normalizedContent t) + length w" "w \<noteq> []"
  shows "normalizedContent t' \<noteq> normalizedContent t
         \<and> (inj sha \<longrightarrow> calculateHash sha t' \<noteq> calculateHash sha t)"
proof -
  from assms have "length (normalizedContent t') \<noteq> length (normalizedContent t)"
    by simp
  then have d: "normalizedContent t' \<noteq> normalizedContent t"
    by auto
  then have "inj sha \<longrightarrow> calculateHash sha t' \<noteq> calculateHash sha t"
    by (auto simp: calculateHash_def dest: injD)
  with d show ?thesis ..
qed

text \<open>
  Claim C5, as the code has it. White space added before and after the text of an action
  or verification step, or a member of a precondition list, leaves the fingerprint as it
  was; so it does for the objective, the known issue and a precondition given as one string,
  when that string is not empty. White space inserted inside the text of a step, with a
  character that is not white space on both sides, makes the hashed string longer, so the
  fingerprint changes unless the digest function collides.
\<close>

theorem calculateHash_whitespace:
  assumes "list_all isSpace w1" "list_all isSpace w2"
  shows
  "calculateHash sha (t\<lparr>actionSteps :=
       withStepText i (w1 @ text_s (actionSteps t ! i) @ w2) (actionSteps t)\<rparr>) = calculateHash sha t
   \<and> calculateHash sha (t\<lparr>verificationSteps :=
       withStepText j (w1 @ text_s (verificationSteps t ! j) @ w2) (verificationSteps t)\<rparr>)
       = calculateHash sha t
   \<and> (s \<noteq> [] \<longrightarrow>
        calculateHash sha (withObjective (w1 @ s @ w2) t) = calculateHash sha (withObjective s t))
   \<and> (s \<noteq> [] \<longrightarrow>
        calculateHash sha (withKnownIssue (w1 @ s @ w2) t) = calculateHash sha (withKnownIssue s t))
   \<and> (s \<noteq> [] \<longrightarrow>
        calculateHash sha (withPrecondition (Single (w1 @ s @ w2)) t)
        = calculateHash sha (withPrecondition (Single s) t))
   \<and> calculateHash sha (withPrecondition (Many (ps[n := w1 @ ps ! n @ w2])) t)
       = calculateHash sha (withPrecondition (Many ps) t)
   \<and> (k < length (actionSteps t) \<and> text_s (actionSteps t ! k) = a @ b
        \<and> \<not> list_all isSpace a \<and> \<not> list_all isSpace b \<and> w \<noteq> [] \<and> list_all isSpace w \<longrightarrow>
        normalizedContent (t\<lparr>actionSteps := withStepText k (a @ w @ b) (actionSteps t)\<rparr>)
          \<noteq> normalizedContent t
        \<and> (inj sha \<longrightarrow>
             calculateHash sha (t\<lparr>actionSteps := withStepText k (a @ w @ b) (actionSteps t)\<rparr>)
             \<noteq> calculateHash sha t))
   \<and> (k < length (verificationSteps t) \<and> text_s (verificationSteps t ! k) = a @ b
        \<and> \<not> list_all isSpace a \<and> \<not> list_all isSpace b \<and> w \<noteq> [] \<and> list_all isSpace w \<longrightarrow>
        normalizedContent (t\<lparr>verificationSteps := withStepText k (a @ w @ b) (verificationSteps t)\<rparr>)
          \<noteq> normalizedContent t
        \<and> (inj sha \<longrightarrow>
             calculateHash sha
               (t\<lparr>verificationSteps := withStepText k (a @ w @ b) (verificationSteps t)\<rparr>)
             \<noteq> calculateHash sha t))"
proof -
  note pad = trim_pad [OF assms]
  have 1: "calculateHash sha (t\<lparr>actionSteps :=
       withStepText i (w1 @ text_s (actionSteps t ! i) @ w2) (actionSteps t)\<rparr>) = calculateHash sha t"
    by (rule calculateHash_parts, rule parts_withStepText_actions, rule pad)
  have 2: "calculateHash sha (t\<lparr>verificationSteps :=
       withStepText j (w1 @ text_s (verificationSteps t ! j) @ w2) (verificationSteps t)\<rparr>)
       = calculateHash sha t"
    by (rule calculateHash_parts, rule parts_withStepText_verifications, rule pad)
  have 3: "s \<noteq> [] \<longrightarrow>
        calculateHash sha (withObjective (w1 @ s @ w2) t) = calculateHash sha (withObjective s t)"
    by (intro impI calculateHash_parts parts_withObjective pad) simp_all
  have 4: "s \<noteq> [] \<longrightarrow>
        calculateHash sha (withKnownIssue (w1 @ s @ w2) t) = calculateHash sha (withKnownIssue s t)"
    by (intro impI calculateHash_parts parts_withKnownIssue pad) simp_all
  have 5: "s \<noteq> [] \<longrightarrow>
        calculateHash sha (withPrecondition (Single (w1 @ s @ w2)) t)
        = calculateHash sha (withPrecondition (Single s) t)"
    by (intro impI calculateHash_parts parts_withPrecondition_Single pad) simp_all
  have 6: "calculateHash sha (withPrecondition (Many (ps[n := w1 @ ps ! n @ w2])) t)
       = calculateHash sha (withPrecondition (Many ps) t)"
    by (rule calculateHash_parts, rule parts_withPrecondition_Many, rule pad)
  have 7: "k < length (actionSteps t) \<and> text_s (actionSteps t ! k) = a @ b
        \<and> \<not> list_all isSpace a \<and> \<not> list_all isSpace b \<and> w \<noteq> [] \<and> list_all isSpace w \<longrightarrow>
        normalizedContent (t\<lparr>actionSteps := withStepText k (a @ w @ b) (actionSteps t)\<rparr>)
          \<noteq> normalizedContent t
        \<and> (inj sha \<longrightarrow>
             calculateHash sha (t\<lparr>actionSteps := withStepText k (a @ w @ b) (actionSteps t)\<rparr>)
             \<noteq> calculateHash sha t)"
  proof (intro impI, elim conjE)
    assume h: "k < length (actionSteps t)" "text_s (actionSteps t ! k) = a @ b"
      "\<not> list_all isSpace a" "\<not> list_all isSpace b" and w: "w \<noteq> []"
    show "normalizedContent (t\<lparr>actionSteps := withStepText k (a @ w @ b) (actionSteps t)\<rparr>)
          \<noteq> normalizedContent t
        \<and> (inj sha \<longrightarrow>
             calculateHash sha (t\<lparr>actionSteps := withStepText k (a @ w @ b) (actionSteps t)\<rparr>)
             \<noteq> calculateHash sha t)"
      by (rule calculateHash_differs [OF normalizedContent_actions_inner [OF h] w])
  qed
  have 8: "k < length (verificationSteps t) \<and> text_s (verificationSteps t ! k) = a @ b
        \<and> \<not> list_all isSpace a \<and> \<not> list_all isSpace b \<and> w \<noteq> [] \<and> list_all isSpace w \<longrightarrow>
        normalizedContent (t\<lparr>verificationSteps := withStepText k (a @ w @ b) (verificationSteps t)\<rparr>)
          \<noteq> normalizedContent t
        \<and> (inj sha \<longrightarrow>
             calculateHash sha
               (t\<lparr>verificationSteps := withStepText k (a @ w @ b) (verificationSteps t)\<rparr>)
             \<noteq> calculateHash sha t)"
  proof (intro impI, elim conjE)
    assume h: "k < length (verificationSteps t)" "text_s (verificationSteps t ! k) = a @ b"
      "\<not> list_all isSpace a" "\<not> list_all isSpace b" and w: "w \<noteq> []"
    show "normalizedContent (t\<lparr>verificationSteps := withStepText k (a @ w @ b) (verificationSteps t)\<rparr>)
          \<noteq> normalizedContent t
        \<and> (inj sha \<longrightarrow>
             calculateHash sha
               (t\<lparr>verificationSteps := withStepText k (a @ w @ b) (verificationSteps t)\<rparr>)
             \<noteq> calculateHash sha t)"
      by (rule calculateHash_differs [OF normalizedContent_verifications_inner [OF h] w])
  qed
  from 1 2 3 4 5 6 7 8 show ?thesis
    by (intro conjI)
qed

text \<open>
  Claim C5 as stated covers an objective of white space only. The section is kept or
  omitted by the truth value of the raw string, so an objective of one blank contributes
  an empty objective section, and the empty objective contributes none.
\<close>

theorem calculateHash_whitespace_counterexample:
  "list_all isSpace '' ''
   \<and> normalizedContent (withObjective ('' '' @ [] @ []) loginTest) =
       ''objective:'' @ [CHR 0x0A] @ ''actions:Navigate to login page'' @ [CHR 0x0A] @
       ''verifications:User is logged in''
   \<and> normalizedContent (withObjective [] loginTest) =
       ''actions:Navigate to login page'' @ [CHR 0x0A] @ ''verifications:User is logged in''
   \<and> calculateHash (\<lambda>s. s) (withObjective ('' '' @ [] @ []) loginTest)
       \<noteq> calculateHash (\<lambda>s. s) (withObjective [] loginTest)"
  by (simp add: withObjective_def loginTest_def hash_eval truthy_def isSpace_def)


theorem calculateHash_whitespace_witness:
  "list_all isSpace '' '' \<and> list_all isSpace ''  ''
   \<and> (0::nat) < length (actionSteps loginTest)
   \<and> text_s (actionSteps loginTest ! 0) = ''Navigate'' @ '' to login page''
   \<and> \<not> list_all isSpace ''Navigate'' \<and> \<not> list_all isSpace '' to login page''
   \<and> calculateHash (\<lambda>s. s)
        (loginTest\<lparr>actionSteps :=
           withStepText 0 ('' '' @ ''Navigate to login page'' @ ''  '') (actionSteps loginTest)\<rparr>)
       = calculateHash (\<lambda>s. s) loginTest
   \<and> calculateHash (\<lambda>s. s) (withObjective ('' '' @ ''Verify login'' @ ''  '') loginTest)
       = calculateHash (\<lambda>s. s) (withObjective ''Verify login'' loginTest)
   \<and> normalizedContent
        (loginTest\<lparr>actionSteps :=
           withStepText 0 (''Navigate'' @ '' '' @ '' to login page'') (actionSteps loginTest)\<rparr>)
       \<noteq> normalizedContent loginTest"
proof -
  have w1: "list_all isSpace '' ''" and w2: "list_all isSpace ''  ''"
    by (simp_all add: isSpace_def)
  have k: "(0::nat) < length (actionSteps loginTest)"
    and ab: "text_s (actionSteps loginTest ! 0) = ''Navigate'' @ '' to login page''"
    and tx: "text_s (actionSteps loginTest ! 0) = ''Navigate to login page''"
    by (simp_all add: loginTest_def)
  have a: "\<not> list_all isSpace ''Navigate''" and b: "\<not> list_all isSpace '' to login page''"
    by (simp_all add: isSpace_def)
  have s: "''Verify login'' \<noteq> []" and w: "'' '' \<noteq> []"
    by simp_all
  note r = calculateHash_whitespace [OF w1 w2, where sha = "\<lambda>s. s" and t = loginTest and i = 0
      and s = "''Verify login''" and k = 0 and a = "''Navigate''" and b = "'' to login page''"
      and w = "'' ''"]
  note r2 = r [THEN conjunct2, THEN conjunct2]
  note r6 = r2 [THEN conjunct2, THEN conjunct2, THEN conjunct2, THEN conjunct2]
  have c1: "calculateHash (\<lambda>s. s)
        (loginTest\<lparr>actionSteps :=
           withStepText 0 ('' '' @ ''Navigate to login page'' @ ''  '') (actionSteps loginTest)\<rparr>)
       = calculateHash (\<lambda>s. s) loginTest"
    using r [THEN conjunct1] unfolding tx .
  have c3: "calculateHash (\<lambda>s. s) (withObjective ('' '' @ ''Verify login'' @ ''  '') loginTest)
       = calculateHash (\<lambda>s. s) (withObjective ''Verify login'' loginTest)"
    by (rule mp [OF r2 [THEN conjunct1] s])
  have h: "0 < length (actionSteps loginTest)
        \<and> text_s (actionSteps loginTest ! 0) = ''Navigate'' @ '' to login page''
        \<and> \<not> list_all isSpace ''Navigate'' \<and> \<not> list_all isSpace '' to login page''
        \<and> '' '' \<noteq> [] \<and> list_all isSpace '' ''"
    using k ab a b w w1 by (intro conjI)
  have c7: "normalizedContent
        (loginTest\<lparr>actionSteps :=
           withStepText 0 (''Navigate'' @ '' '' @ '' to login page'') (actionSteps loginTest)\<rparr>)
       \<noteq> normalizedContent loginTest"
    by (rule mp [OF r6 [THEN conjunct1] h, THEN conjunct1])
  from w1 w2 k ab a b c1 c3 c7 show ?thesis
    by (intro conjI)
qed

section \<open>Separators\<close>

lemma join_Cons: "join sep (x # xs) = (if xs = [] then x else x @ sep @ join sep xs)"
  by (cases xs) simp_all

lemma set_join: "set (join sep xs) \<subseteq> set sep \<union> (\<Union>x \<in> set xs. set x)"
  by (induction sep xs rule: join.induct) auto

lemma join_Nil_iff:
  assumes "\<forall>x \<in> set xs. x \<noteq> []"
  shows "join sep xs = [] \<longleftrightarrow> xs = []"
  using assms by (cases xs) (simp_all add: join_Cons)

lemma takeWhile_segment:
  assumes "c \<notin> set x" "r = [] \<or> hd r = c"
  shows "takeWhile (\<lambda>d. d \<noteq> c) (x @ r) = x"
proof (cases r)
  case Nil
  with assms(1) show ?thesis
    by (auto simp: takeWhile_eq_all_conv)
next
  case (Cons d r')
  with assms(2) have r: "r = c # r'" by simp
  have "takeWhile (\<lambda>d. d \<noteq> c) (x @ c # r') = x @ takeWhile (\<lambda>d. d \<noteq> c) (c # r')"
    by (rule takeWhile_append2) (use assms(1) in auto)
  then show ?thesis
    by (simp add: r)
qed

lemma segment_unique:
  assumes "c \<notin> set x" "c \<notin> set y" "r = [] \<or> hd r = c" "r' = [] \<or> hd r' = c"
    and eq: "x @ r = y @ r'"
  shows "x = y \<and> r = r'"
proof -
  have "takeWhile (\<lambda>d. d \<noteq> c) (x @ r) = takeWhile (\<lambda>d. d \<noteq> c) (y @ r')"
    using eq by (rule arg_cong)
  then have xy: "x = y"
    unfolding takeWhile_segment [OF assms(1,3)] takeWhile_segment [OF assms(2,4)] .
  with eq have "r = r'"
    by simp
  with xy show ?thesis ..
qed

lemma join_inj:
  assumes "\<forall>x \<in> set xs. c \<notin> set x" "\<forall>y \<in> set ys. c \<notin> set y"
    and "xs = [] \<longleftrightarrow> ys = []" "join [c] xs = join [c] ys"
  shows "xs = ys"
  using assms
proof (induction xs arbitrary: ys)
  case Nil
  then show ?case by simp
next
  case (Cons x xs)
  from Cons.prems(3) obtain y ys' where ys: "ys = y # ys'"
    by (cases ys) auto
  define r where "r = (if xs = [] then [] else c # join [c] xs)"
  define r' where "r' = (if ys' = [] then [] else c # join [c] ys')"
  have jx: "join [c] (x # xs) = x @ r" and jy: "join [c] (y # ys') = y @ r'"
    by (simp_all add: join_Cons r_def r'_def)
  have hr: "r = [] \<or> hd r = c" and hr': "r' = [] \<or> hd r' = c"
    by (simp_all add: r_def r'_def)
  from Cons.prems(1) have cx: "c \<notin> set x" by simp
  from Cons.prems(2) have cy: "c \<notin> set y" by (simp add: ys)
  from Cons.prems(4) have eq: "x @ r = y @ r'"
    unfolding ys jx jy .
  note u = segment_unique [OF cx cy hr hr' eq]
  from u have xy: "x = y" ..
  from u have rr: "r = r'" ..
  from rr have e: "xs = [] \<longleftrightarrow> ys' = []"
    by (auto simp: r_def r'_def split: if_splits)
  from rr have j: "join [c] xs = join [c] ys'"
    by (auto simp: r_def r'_def split: if_splits)
  have "xs = ys'"
  proof (rule Cons.IH [OF _ _ e j])
    show "\<forall>x \<in> set xs. c \<notin> set x" using Cons.prems(1) by simp
    show "\<forall>y \<in> set ys'. c \<notin> set y" using Cons.prems(2) by (simp add: ys)
  qed
  with xy show ?case by (simp add: ys)
qed


lemma bar_join_inj:
  assumes "list_all barFree xs" "list_all barFree ys" "xs \<noteq> []" "ys \<noteq> []"
    and "join ''|'' xs = join ''|'' ys"
  shows "xs = ys"
proof (rule join_inj [of xs "CHR ''|''" ys])
  show "\<forall>x \<in> set xs. CHR ''|'' \<notin> set x"
    using assms(1) by (simp add: list_all_iff barFree_def)
  show "\<forall>y \<in> set ys. CHR ''|'' \<notin> set y"
    using assms(2) by (simp add: list_all_iff barFree_def)
  show "xs = [] \<longleftrightarrow> ys = []"
    using assms(3,4) by simp
  show "join [CHR ''|''] xs = join [CHR ''|''] ys"
    using assms(5) by simp
qed

lemma lineFree_join:
  assumes "list_all lineFree xs"
  shows "CHR 0x0A \<notin> set (join ''|'' xs)"
  using assms set_join [of "''|''" xs] by (auto simp: list_all_iff lineFree_def)

lemma separable_objective:
  "separable (canonical t) \<Longrightarrow> truthy (objective (jsdocTags t)) \<Longrightarrow>
   lineFree (trim (the (objective (jsdocTags t))))"
  by (simp add: separable_def canonical_def)

lemma separable_knownIssue:
  "separable (canonical t) \<Longrightarrow> truthy (knownIssue (jsdocTags t)) \<Longrightarrow>
   lineFree (trim (the (knownIssue (jsdocTags t))))"
  by (simp add: separable_def canonical_def)

lemma separable_preconditions:
  "separable (canonical t) \<Longrightarrow> hasPrecondition (precondition (jsdocTags t)) \<Longrightarrow>
   list_all lineFree (map trim (preconditions (the (precondition (jsdocTags t)))))
   \<and> list_all barFree (map trim (preconditions (the (precondition (jsdocTags t)))))
   \<and> map trim (preconditions (the (precondition (jsdocTags t)))) \<noteq> []"
  by (simp add: separable_def canonical_def list_all_iff)

lemma separable_actions:
  "separable (canonical t) \<Longrightarrow>
   list_all lineFree (stepTexts (actionSteps t)) \<and> list_all barFree (stepTexts (actionSteps t))"
  by (auto simp: separable_def canonical_def list_all_iff split: if_splits)

lemma separable_verifications:
  "separable (canonical t) \<Longrightarrow>
   list_all lineFree (stepTexts (verificationSteps t))
   \<and> list_all barFree (stepTexts (verificationSteps t))"
  by (auto simp: separable_def canonical_def list_all_iff split: if_splits)

lemma parts_nonempty: "\<forall>p \<in> set (parts t). p \<noteq> []"
  by (auto simp: parts_def part_defs)

lemma parts_lineFree:
  assumes "separable (canonical t)"
  shows "\<forall>p \<in> set (parts t). CHR 0x0A \<notin> set p"
proof -
  have o: "\<forall>p \<in> set (objectivePart t). CHR 0x0A \<notin> set p"
    using separable_objective [OF assms] by (simp add: objectivePart_def lineFree_def)
  have k: "\<forall>p \<in> set (knownIssuePart t). CHR 0x0A \<notin> set p"
    using separable_knownIssue [OF assms] by (simp add: knownIssuePart_def lineFree_def)
  have p: "\<forall>p \<in> set (preconditionPart t). CHR 0x0A \<notin> set p"
    using separable_preconditions [OF assms] lineFree_join
    by (simp add: preconditionPart_def)
  have a: "\<forall>p \<in> set (actionsPart t). CHR 0x0A \<notin> set p"
    using separable_actions [OF assms] lineFree_join
    by (simp add: actionsPart_def)
  have v: "\<forall>p \<in> set (verificationsPart t). CHR 0x0A \<notin> set p"
    using separable_verifications [OF assms] lineFree_join
    by (simp add: verificationsPart_def)
  from o k p a v show ?thesis
    by (simp add: parts_def ball_Un)
qed

lemma parts_of_normalizedContent:
  assumes "separable (canonical t1)" "separable (canonical t2)"
    and "normalizedContent t1 = normalizedContent t2"
  shows "parts t1 = parts t2"
proof (rule join_inj [of "parts t1" "CHR 0x0A" "parts t2"])
  show "\<forall>x \<in> set (parts t1). CHR 0x0A \<notin> set x"
    using assms(1) by (rule parts_lineFree)
  show "\<forall>y \<in> set (parts t2). CHR 0x0A \<notin> set y"
    using assms(2) by (rule parts_lineFree)
  show "join [CHR 0x0A] (parts t1) = join [CHR 0x0A] (parts t2)"
    using assms(3) by (simp add: normalizedContent_def)
  then show "parts t1 = [] \<longleftrightarrow> parts t2 = []"
    using join_Nil_iff [OF parts_nonempty, of "[CHR 0x0A]" t1]
      join_Nil_iff [OF parts_nonempty, of "[CHR 0x0A]" t2]
    by simp
qed

lemma filter_objective: "filter (\<lambda>s. take 1 s = ''o'') (parts t) = objectivePart t"
  by (simp add: parts_def part_defs)

lemma filter_precondition: "filter (\<lambda>s. take 1 s = ''p'') (parts t) = preconditionPart t"
  by (simp add: parts_def part_defs)

lemma filter_actions: "filter (\<lambda>s. take 1 s = ''a'') (parts t) = actionsPart t"
  by (simp add: parts_def part_defs)

lemma filter_verifications: "filter (\<lambda>s. take 1 s = ''v'') (parts t) = verificationsPart t"
  by (simp add: parts_def part_defs)

lemma filter_knownIssue: "filter (\<lambda>s. take 1 s = ''k'') (parts t) = knownIssuePart t"
  by (simp add: parts_def part_defs)


lemma objective_of_part:
  "objectivePart t1 = objectivePart t2 \<Longrightarrow>
   c_objective (canonical t1) = c_objective (canonical t2)"
  by (simp add: objectivePart_def canonical_def split: if_splits)

lemma knownIssue_of_part:
  "knownIssuePart t1 = knownIssuePart t2 \<Longrightarrow>
   c_knownIssue (canonical t1) = c_knownIssue (canonical t2)"
  by (simp add: knownIssuePart_def canonical_def split: if_splits)

lemma preconditions_of_part:
  assumes "separable (canonical t1)" "separable (canonical t2)"
    and eq: "preconditionPart t1 = preconditionPart t2"
  shows "c_preconditions (canonical t1) = c_preconditions (canonical t2)"
proof (cases "hasPrecondition (precondition (jsdocTags t1))")
  case False
  with eq have "\<not> hasPrecondition (precondition (jsdocTags t2))"
    by (simp add: preconditionPart_def split: if_splits)
  with False show ?thesis
    by (simp add: canonical_def)
next
  case True
  with eq have t2: "hasPrecondition (precondition (jsdocTags t2))"
    by (simp add: preconditionPart_def split: if_splits)
  let ?p1 = "map trim (preconditions (the (precondition (jsdocTags t1))))"
  let ?p2 = "map trim (preconditions (the (precondition (jsdocTags t2))))"
  from eq True t2 have j: "join ''|'' ?p1 = join ''|'' ?p2"
    by (simp add: preconditionPart_def)
  note s1 = separable_preconditions [OF assms(1) True]
  note s2 = separable_preconditions [OF assms(2) t2]
  have "?p1 = ?p2"
    by (rule bar_join_inj [OF s1 [THEN conjunct2, THEN conjunct1]
          s2 [THEN conjunct2, THEN conjunct1] s1 [THEN conjunct2, THEN conjunct2]
          s2 [THEN conjunct2, THEN conjunct2] j])
  with True t2 show ?thesis
    by (simp add: canonical_def)
qed

lemma stepTexts_of_part:
  assumes "list_all barFree (stepTexts xs)" "list_all barFree (stepTexts ys)"
    and eq: "(if length xs > 0 then [label @ join ''|'' (stepTexts xs)] else [])
           = (if length ys > 0 then [label @ join ''|'' (stepTexts ys)] else [])"
  shows "stepTexts xs = stepTexts ys"
proof (cases "xs = []")
  case True
  with eq have "ys = []"
    by (simp split: if_splits)
  with True show ?thesis by simp
next
  case False
  with eq have ys: "ys \<noteq> []"
    by (simp split: if_splits)
  with eq False have j: "join ''|'' (stepTexts xs) = join ''|'' (stepTexts ys)"
    by simp
  from False ys have ne: "stepTexts xs \<noteq> []" "stepTexts ys \<noteq> []"
    using length_stepTexts [of xs] length_stepTexts [of ys] by auto
  show ?thesis
    by (rule bar_join_inj [OF assms(1,2) ne j])
qed

lemma canonical_of_parts:
  assumes "separable (canonical t1)" "separable (canonical t2)" and eq: "parts t1 = parts t2"
  shows "canonical t1 = canonical t2"
proof (rule Canonical.equality)
  from eq have "objectivePart t1 = objectivePart t2"
    unfolding filter_objective [symmetric] by simp
  then show "c_objective (canonical t1) = c_objective (canonical t2)"
    by (rule objective_of_part)
  from eq have "knownIssuePart t1 = knownIssuePart t2"
    unfolding filter_knownIssue [symmetric] by simp
  then show "c_knownIssue (canonical t1) = c_knownIssue (canonical t2)"
    by (rule knownIssue_of_part)
  from eq have "preconditionPart t1 = preconditionPart t2"
    unfolding filter_precondition [symmetric] by simp
  then show "c_preconditions (canonical t1) = c_preconditions (canonical t2)"
    by (rule preconditions_of_part [OF assms(1,2)])
  from eq have "actionsPart t1 = actionsPart t2"
    unfolding filter_actions [symmetric] by simp
  then have "stepTexts (actionSteps t1) = stepTexts (actionSteps t2)"
    unfolding actionsPart_def
    by (rule stepTexts_of_part [OF separable_actions [OF assms(1), THEN conjunct2]
          separable_actions [OF assms(2), THEN conjunct2]])
  then show "c_actions (canonical t1) = c_actions (canonical t2)"
    by (simp add: canonical_def)
  from eq have "verificationsPart t1 = verificationsPart t2"
    unfolding filter_verifications [symmetric] by simp
  then have "stepTexts (verificationSteps t1) = stepTexts (verificationSteps t2)"
    unfolding verificationsPart_def
    by (rule stepTexts_of_part [OF separable_verifications [OF assms(1), THEN conjunct2]
          separable_verifications [OF assms(2), THEN conjunct2]])
  then show "c_verifications (canonical t1) = c_verifications (canonical t2)"
    by (simp add: canonical_def)
  show "Canonical.more (canonical t1) = Canonical.more (canonical t2)"
    by simp
qed

lemma normalizedContent_of_canonical:
  assumes "canonical t1 = canonical t2"
  shows "normalizedContent t1 = normalizedContent t2"
proof -
  from assms have f: "c_objective (canonical t1) = c_objective (canonical t2)"
    "c_preconditions (canonical t1) = c_preconditions (canonical t2)"
    "c_actions (canonical t1) = c_actions (canonical t2)"
    "c_verifications (canonical t1) = c_verifications (canonical t2)"
    "c_knownIssue (canonical t1) = c_knownIssue (canonical t2)"
    by simp_all
  from f(1) have o: "objectivePart t1 = objectivePart t2"
    by (simp add: canonical_def objectivePart_def split: if_splits)
  from f(5) have k: "knownIssuePart t1 = knownIssuePart t2"
    by (simp add: canonical_def knownIssuePart_def split: if_splits)
  from f(2) have p: "preconditionPart t1 = preconditionPart t2"
    by (simp add: canonical_def preconditionPart_def split: if_splits)
  from f(3) have a: "stepTexts (actionSteps t1) = stepTexts (actionSteps t2)"
    by (simp add: canonical_def)
  then have "length (actionSteps t1) = length (actionSteps t2)"
    using length_stepTexts [of "actionSteps t1"] length_stepTexts [of "actionSteps t2"] by simp
  with a have a': "actionsPart t1 = actionsPart t2"
    by (simp add: actionsPart_def)
  from f(4) have v: "stepTexts (verificationSteps t1) = stepTexts (verificationSteps t2)"
    by (simp add: canonical_def)
  then have "length (verificationSteps t1) = length (verificationSteps t2)"
    using length_stepTexts [of "verificationSteps t1"] length_stepTexts [of "verificationSteps t2"]
    by simp
  with v have v': "verificationsPart t1 = verificationsPart t2"
    by (simp add: verificationsPart_def)
  from o k p a' v' show ?thesis
    by (simp add: normalizedContent_def parts_def)
qed

text \<open>
  Claim C2, as the code has it. The hashed string determines the canonical structure of a
  test among the tests in which no trimmed text holds a line feed, no trimmed step text or
  precondition holds a bar, and a precondition list that is present is not empty: two such
  tests with different canonical structures have different hashed strings.
\<close>

theorem normalizedContent_injective:
  assumes "separable (canonical t1)" "separable (canonical t2)"
    and "canonical t1 \<noteq> canonical t2"
  shows "normalizedContent t1 \<noteq> normalizedContent t2"
proof
  assume "normalizedContent t1 = normalizedContent t2"
  with assms(1,2) have "parts t1 = parts t2"
    by (rule parts_of_normalizedContent)
  with assms(1,2) have "canonical t1 = canonical t2"
    by (rule canonical_of_parts)
  with assms(3) show False ..
qed

lemmas canonical_eval = canonical_def separable_def lineFree_def barFree_def

theorem normalizedContent_injective_witness:
  "separable (canonical loginTest) \<and> separable (canonical splitTest)
   \<and> canonical loginTest \<noteq> canonical splitTest
   \<and> normalizedContent loginTest \<noteq> normalizedContent splitTest"
proof -
  have 1: "separable (canonical loginTest)" and 2: "separable (canonical splitTest)"
    by (simp_all add: canonical_eval splitTest_def loginTest_def hash_eval truthy_def isSpace_def)
  have 3: "canonical loginTest \<noteq> canonical splitTest"
    by (simp add: canonical_eval splitTest_def loginTest_def hash_eval truthy_def isSpace_def)
  from 1 2 3 normalizedContent_injective [OF 1 2 3] show ?thesis
    by (intro conjI)
qed

text \<open>
  Claim C2 as stated covers every test. The separators are not escaped: one step
  \<open>Open menu|Click save\<close> and the two steps \<open>Open menu\<close>, \<open>Click save\<close> give the same
  hashed string, and so do an objective that goes on, after a line feed, with
  \<open>actions:Open menu\<close> and the shorter objective with the action step \<open>Open menu\<close>.
\<close>

theorem normalizedContent_collision_counterexample:
  "c_actions (canonical barTest) = [''Open menu|Click save'']
   \<and> c_actions (canonical splitTest) = [''Open menu'', ''Click save'']
   \<and> canonical barTest \<noteq> canonical splitTest
   \<and> normalizedContent barTest = normalizedContent splitTest
   \<and> c_objective (canonical migratedTest)
       = Some (''Verify login'' @ [CHR 0x0A] @ ''actions:Open menu'')
   \<and> c_actions (canonical migratedTest) = []
   \<and> c_objective (canonical plainTest) = Some ''Verify login''
   \<and> c_actions (canonical plainTest) = [''Open menu'']
   \<and> canonical migratedTest \<noteq> canonical plainTest
   \<and> normalizedContent migratedTest = normalizedContent plainTest"
  by (simp add: canonical_eval barTest_def splitTest_def migratedTest_def plainTest_def
      withObjective_def loginTest_def hash_eval truthy_def isSpace_def)

end
